theory Spec2Isabelle
  imports Main "HOL-Library.Word"
begin

unbundle bit_operations_syntax

section \<open>ELF data model (elf.cc)\<close>

text \<open>
  The structures of \<^verbatim>\<open><elf.h>\<close> in their 64-bit form: \<^verbatim>\<open>Elf_Off\<close> and
  \<^verbatim>\<open>Elf_Addr\<close> are 64-bit unsigned, \<^verbatim>\<open>Elf_Word\<close> is 32-bit, \<^verbatim>\<open>Elf_Half\<close> is
  16-bit. Arithmetic on them wraps, as \<open>+\<close> on words does. Only the fields
  that elf.cc and the scanner read are kept.
\<close>

type_synonym Elf_Off = "64 word"
type_synonym Elf_Addr = "64 word"
type_synonym Elf_Word = "32 word"
type_synonym Elf_Half = "16 word"

record Elf_Ehdr =
  e_ident :: "8 word list"
  e_phoff :: Elf_Off
  e_shoff :: Elf_Off
  e_phentsize :: Elf_Half
  e_phnum :: Elf_Half
  e_shentsize :: Elf_Half
  e_shnum :: Elf_Half
  e_shstrndx :: Elf_Half

record Elf_Phdr =
  p_type :: Elf_Word
  p_offset :: Elf_Off
  p_vaddr :: Elf_Addr
  p_filesz :: "64 word"
  p_memsz :: "64 word"

record Elf_Shdr =
  sh_name :: Elf_Word
  sh_type :: Elf_Word
  sh_flags :: "64 word"
  sh_offset :: Elf_Off
  sh_size :: "64 word"
  sh_link :: Elf_Word

record Elf_Sym =
  st_name :: Elf_Word
  st_info :: "8 word"
  st_shndx :: Elf_Half
  st_value :: Elf_Addr
  st_size :: "64 word"

definition EI_VERSION :: nat where "EI_VERSION = 6"
definition EV_CURRENT :: "8 word" where "EV_CURRENT = 1"
definition PT_LOAD :: Elf_Word where "PT_LOAD = 1"
definition PT_INTERP :: Elf_Word where "PT_INTERP = 3"
definition SHT_NULL :: Elf_Word where "SHT_NULL = 0"
definition SHT_PROGBITS :: Elf_Word where "SHT_PROGBITS = 1"
definition SHT_SYMTAB :: Elf_Word where "SHT_SYMTAB = 2"
definition SHT_HASH :: Elf_Word where "SHT_HASH = 5"
definition SHT_NOBITS :: Elf_Word where "SHT_NOBITS = 8"
definition SHT_DYNSYM :: Elf_Word where "SHT_DYNSYM = 11"
definition SHF_ALLOC :: "64 word" where "SHF_ALLOC = 2"
definition SHN_UNDEF :: Elf_Half where "SHN_UNDEF = 0"
definition STN_UNDEF :: Elf_Word where "STN_UNDEF = 0"
definition STT_NOTYPE :: int where "STT_NOTYPE = 0"

text \<open>\<^verbatim>\<open>sizeof (Elf_Sym)\<close> and \<^verbatim>\<open>sizeof (Elf_Word)\<close> for the 64-bit structures.\<close>

definition sizeof_Sym :: nat where "sizeof_Sym = 24"
definition sizeof_Word :: nat where "sizeof_Word = 4"

definition IS_ELF :: "Elf_Ehdr \<Rightarrow> bool" where
  "IS_ELF h \<longleftrightarrow>
     e_ident h ! 0 = 0x7f \<and> e_ident h ! 1 = 0x45 \<and> e_ident h ! 2 = 0x4c \<and> e_ident h ! 3 = 0x46"

definition ELF_ST_TYPE :: "8 word \<Rightarrow> int" where
  "ELF_ST_TYPE info = uint (info AND 0xf)"

subsection \<open>The reader\<close>

text \<open>
  The \<^verbatim>\<open>Reader\<close> class (util.h) is not part of the sources at hand; it is taken as a
  parameter. Each typed read of \<^verbatim>\<open>readObj\<close> is a field: it yields the structure
  stored at an offset, or \<open>None\<close> where the reader throws (a short read).
  \<^verbatim>\<open>readString\<close> yields the NUL-terminated string at an offset.
\<close>

record Reader =
  describe :: string
  readEhdr :: "Elf_Off \<Rightarrow> Elf_Ehdr option"
  readPhdr :: "Elf_Off \<Rightarrow> Elf_Phdr option"
  readShdr :: "Elf_Off \<Rightarrow> Elf_Shdr option"
  readSym :: "Elf_Off \<Rightarrow> Elf_Sym option"
  readWords :: "Elf_Off \<Rightarrow> nat \<Rightarrow> Elf_Word list option"
  readString :: "Elf_Off \<Rightarrow> string option"

text \<open>
  What can end a call early. \<open>NotElf\<close> is the exception of \<^verbatim>\<open>ElfObject::init\<close>,
  \<open>ReadError\<close> an exception of the reader. The others are not exceptions: an index
  outside a \<^verbatim>\<open>std::vector\<close> or outside the hash data, a division by zero, a null
  pointer dereference and \<^verbatim>\<open>abort()\<close> have no defined result in C++ and are
  kept apart as values of their own.
\<close>

datatype fault =
    NotElf string
  | ReadError
  | OutOfBounds
  | DivByZero
  | NullDeref
  | Aborted

fun is_exception :: "fault \<Rightarrow> bool" where
  "is_exception (NotElf m) = True"
| "is_exception ReadError = True"
| "is_exception f = False"

definition lift_read :: "'a option \<Rightarrow> fault + 'a" where
  "lift_read r = (case r of None \<Rightarrow> Inl ReadError | Some x \<Rightarrow> Inr x)"

text \<open>\<^verbatim>\<open>v[i]\<close> on a \<^verbatim>\<open>std::vector\<close>: unchecked in C++, a fault of the model out of range.\<close>

definition at_index :: "'a list \<Rightarrow> nat \<Rightarrow> fault + 'a" where
  "at_index v i = (if i < length v then Inr (v ! i) else Inl OutOfBounds)"

subsection \<open>The ELF object\<close>

text \<open>
  \<^verbatim>\<open>ElfSymHash\<close>: the section headers of the hash table and of its symbol table,
  the table's words, and the offset of the string table. \<^verbatim>\<open>buckets\<close> and
  \<^verbatim>\<open>chains\<close> are pointers into \<^verbatim>\<open>data\<close>: \<^verbatim>\<open>buckets[b]\<close> is
  \<^verbatim>\<open>data[2 + b]\<close> and \<^verbatim>\<open>chains[i]\<close> is \<^verbatim>\<open>data[2 + nbucket + i]\<close>.
\<close>

record ElfSymHash =
  hashsec :: Elf_Shdr
  syms :: Elf_Shdr
  data :: "Elf_Word list"
  nbucket :: Elf_Word
  nchain :: Elf_Word
  strings :: Elf_Off

text \<open>
  \<^verbatim>\<open>namedSection\<close> maps a name to a pointer into \<^verbatim>\<open>sectionHeaders\<close>; the vector
  is not changed after \<^verbatim>\<open>init\<close>, so the map holds the header itself. The
  \<^verbatim>\<open>debug\<close> member is never assigned by code that can run (see \<open>getDebug\<close>).
\<close>

record ElfObject =
  io :: Reader
  elfname :: string
  elfHeader :: Elf_Ehdr
  programHeaders :: "Elf_Phdr list"
  sectionHeaders :: "Elf_Shdr list"
  namedSection :: "string \<rightharpoonup> Elf_Shdr"
  hash :: "ElfSymHash option"
  debugLoaded :: bool

text \<open>
  \<^verbatim>\<open>ElfObject::getDebug\<close>. Its first statement is \<^verbatim>\<open>return 0;\<close>: the lookup of
  \<^verbatim>\<open>.gnu_debuglink\<close> below it cannot run, \<^verbatim>\<open>debugLoaded\<close> stays false and no
  file is opened.
\<close>

definition getDebug :: "ElfObject \<Rightarrow> ElfObject option" where
  "getDebug obj = None"

text \<open>
  \<^verbatim>\<open>ElfObject::getSection\<close>: the companion first, then the name map. An
  \<^verbatim>\<open>ElfSection\<close> is the owning object and a header pointer, null when absent.
\<close>

type_synonym ElfSection = "ElfObject \<times> Elf_Shdr option"

function getSection :: "ElfObject \<Rightarrow> string \<Rightarrow> Elf_Word \<Rightarrow> ElfSection" where
  "getSection obj nm ty =
     (let local =
            (obj, case namedSection obj nm of
                    None \<Rightarrow> None
                  | Some s \<Rightarrow> if sh_type s = ty \<or> ty = SHT_NULL then Some s else None)
      in case getDebug obj of
           None \<Rightarrow> local
         | Some dbg \<Rightarrow>
             (let debugSection = getSection dbg nm ty
              in if snd debugSection \<noteq> None then debugSection else local))"
  by pat_completeness auto
termination
  by (relation "{}") (simp_all add: getDebug_def)

text \<open>\<^verbatim>\<open>ElfSection::getLink\<close>: \<^verbatim>\<open>&obj.sectionHeaders[shdr->sh_link]\<close>, unchecked.\<close>

definition getLink :: "ElfObject \<Rightarrow> Elf_Shdr \<Rightarrow> fault + Elf_Shdr" where
  "getLink obj shdr = at_index (sectionHeaders obj) (unat (sh_link shdr))"

text \<open>The constructor of \<^verbatim>\<open>ElfSymHash\<close>.\<close>

definition ElfSymHash_new :: "ElfObject \<Rightarrow> Elf_Shdr \<Rightarrow> fault + ElfSymHash" where
  "ElfSymHash_new obj hsec =
     (case getLink obj hsec of Inl e \<Rightarrow> Inl e | Inr symsec \<Rightarrow>
      (let words = unat (sh_size hsec) div sizeof_Word in
       case lift_read (readWords (io obj) (sh_offset hsec) words) of Inl e \<Rightarrow> Inl e | Inr words_read \<Rightarrow>
       (case at_index words_read 0 of Inl e \<Rightarrow> Inl e | Inr nb \<Rightarrow>
        (case at_index words_read 1 of Inl e \<Rightarrow> Inl e | Inr nc \<Rightarrow>
         (case getLink obj symsec of Inl e \<Rightarrow> Inl e | Inr strtab \<Rightarrow>
            Inr \<lparr> hashsec = hsec, syms = symsec, data = words_read, nbucket = nb,
                  nchain = nc, strings = sh_offset strtab \<rparr>)))))"

text \<open>
  The two header loops of \<^verbatim>\<open>init\<close>: \<open>n\<close> reads at \<open>off\<close>, \<open>off + stride\<close>, ...,
  each pushed at the back of the vector.
\<close>

fun readHeaders :: "(Elf_Off \<Rightarrow> 'h option) \<Rightarrow> Elf_Off \<Rightarrow> Elf_Off \<Rightarrow> nat \<Rightarrow> fault + 'h list" where
  "readHeaders rd off stride 0 = Inr []"
| "readHeaders rd off stride (Suc n) =
     (case lift_read (rd off) of Inl e \<Rightarrow> Inl e | Inr h \<Rightarrow>
      (case readHeaders rd (off + stride) stride n of Inl e \<Rightarrow> Inl e | Inr hs \<Rightarrow> Inr (h # hs)))"

text \<open>
  The loop that fills \<^verbatim>\<open>namedSection\<close>: for each header \<open>h\<close>, in order,
  \<^verbatim>\<open>namedSection[readString(sshdr.sh_offset + h.sh_name)] = &h\<close>.
\<close>

fun nameSections ::
  "Reader \<Rightarrow> Elf_Shdr \<Rightarrow> Elf_Shdr list \<Rightarrow> (string \<rightharpoonup> Elf_Shdr) \<Rightarrow> fault + (string \<rightharpoonup> Elf_Shdr)" where
  "nameSections rd sshdr [] m = Inr m"
| "nameSections rd sshdr (h # hs) m =
     (case lift_read (readString rd (sh_offset sshdr + ucast (sh_name h))) of Inl e \<Rightarrow> Inl e
      | Inr nm \<Rightarrow> nameSections rd sshdr hs (m(nm \<mapsto> h)))"

text \<open>
  \<^verbatim>\<open>ElfObject::init\<close>, as the constructor from a reader runs it: the name of the
  object is the reader's description. The validation of the header is written as the
  source has it, under \<^verbatim>\<open>false &&\<close>.
\<close>

definition init :: "Reader \<Rightarrow> fault + ElfObject" where
  "init rdr =
     (case lift_read (readEhdr rdr 0) of Inl e \<Rightarrow> Inl e | Inr hdr \<Rightarrow>
      if False \<and> (\<not> IS_ELF hdr \<or> e_ident hdr ! EI_VERSION \<noteq> EV_CURRENT)
      then Inl (NotElf (describe rdr @ '': content is not an ELF image''))
      else
      (case readHeaders (readPhdr rdr) (e_phoff hdr) (ucast (e_phentsize hdr)) (unat (e_phnum hdr))
       of Inl e \<Rightarrow> Inl e | Inr phs \<Rightarrow>
       (case readHeaders (readShdr rdr) (e_shoff hdr) (ucast (e_shentsize hdr)) (unat (e_shnum hdr))
        of Inl e \<Rightarrow> Inl e | Inr shs \<Rightarrow>
        (let obj = \<lparr> io = rdr, elfname = describe rdr, elfHeader = hdr, programHeaders = phs,
                     sectionHeaders = shs, namedSection = Map.empty, hash = None,
                     debugLoaded = False \<rparr>
         in if e_shstrndx hdr \<noteq> SHN_UNDEF then
              (case at_index shs (unat (e_shstrndx hdr)) of Inl e \<Rightarrow> Inl e | Inr sshdr \<Rightarrow>
               (case nameSections rdr sshdr shs Map.empty of Inl e \<Rightarrow> Inl e | Inr named \<Rightarrow>
                (let obj' = obj\<lparr>namedSection := named\<rparr> in
                 case snd (getSection obj' ''.hash'' SHT_HASH) of
                   None \<Rightarrow> Inr obj'
                 | Some tab \<Rightarrow>
                     (case ElfSymHash_new obj' tab of Inl e \<Rightarrow> Inl e
                      | Inr h \<Rightarrow> Inr (obj'\<lparr>hash := Some h\<rparr>)))))
            else Inr obj))))"

text \<open>\<^verbatim>\<open>ElfObject::getSegments\<close> (elfinfo.h) hands out the program headers.\<close>

definition getSegments :: "ElfObject \<Rightarrow> Elf_Phdr list" where
  "getSegments obj = programHeaders obj"

text \<open>\<^verbatim>\<open>ElfObject::findHeaderForAddress\<close>: the first header that passes the test.\<close>

definition findHeaderForAddress :: "ElfObject \<Rightarrow> Elf_Off \<Rightarrow> Elf_Phdr option" where
  "findHeaderForAddress obj a =
     find (\<lambda>hdr. p_vaddr hdr \<le> a \<and> p_vaddr hdr + p_memsz hdr > a \<and> p_type hdr = PT_LOAD)
          (programHeaders obj)"

text \<open>
  \<^verbatim>\<open>ElfObject::getBase\<close>: starts from \<^verbatim>\<open>numeric_limits<Elf_Off>::max()\<close> and takes
  each \<^verbatim>\<open>PT_LOAD\<close> address that is not above the current value.
\<close>

definition getBase :: "ElfObject \<Rightarrow> Elf_Addr" where
  "getBase obj =
     foldl (\<lambda>base i. if p_type i = PT_LOAD \<and> p_vaddr i \<le> base then p_vaddr i else base)
           (- 1) (getSegments obj)"

subsection \<open>Symbol tables\<close>

text \<open>
  Modelled from the spec: \<^verbatim>\<open>SymbolSection\<close> and the stepping of its iterator are
  declared in elfinfo.h, which is not among the sources. The spec's symbol view is a
  cursor into a symbol-table section plus its associated string-table section, yielding
  pairs in table order: the entries lie at \<open>sh_offset\<close>, \<open>sh_offset + sizeof (Elf_Sym)\<close>,
  ..., one for each whole entry in \<open>sh_size\<close>, and the names are read from the
  section that \<open>sh_link\<close> designates.
\<close>

definition SymbolSection :: "ElfObject \<Rightarrow> Elf_Shdr \<Rightarrow> fault + (Elf_Off list \<times> Elf_Off)" where
  "SymbolSection obj shdr =
     (case getLink obj shdr of Inl e \<Rightarrow> Inl e
      | Inr strtab \<Rightarrow>
          Inr (map (\<lambda>i. sh_offset shdr + of_nat (i * sizeof_Sym))
                   [0 ..< unat (sh_size shdr) div sizeof_Sym],
               sh_offset strtab))"

text \<open>\<^verbatim>\<open>SymbolIterator::operator *\<close>: the entry at \<open>off\<close> and its name.\<close>

definition deref :: "Reader \<Rightarrow> Elf_Off \<Rightarrow> Elf_Off \<Rightarrow> fault + (Elf_Sym \<times> string)" where
  "deref rdr off stroff =
     (case lift_read (readSym rdr off) of Inl e \<Rightarrow> Inl e
      | Inr symv \<Rightarrow>
          (case lift_read (readString rdr (ucast (st_name symv) + stroff)) of Inl e \<Rightarrow> Inl e
           | Inr nm \<Rightarrow> Inr (symv, nm)))"

subsection \<open>Lookup by address\<close>

text \<open>
  The inner loop over one table; each \<^verbatim>\<open>continue\<close> goes on with the next entry.
  The state is \<^verbatim>\<open>lowest\<close> and the two output parameters; the flag of the result
  tells that the loop returned \<^verbatim>\<open>true\<close> from the function.
\<close>

fun symLoop ::
  "ElfObject \<Rightarrow> Elf_Addr \<Rightarrow> int \<Rightarrow> Reader \<Rightarrow> Elf_Off \<Rightarrow> Elf_Off list \<Rightarrow>
   Elf_Addr \<times> Elf_Sym \<times> string \<Rightarrow> fault + (bool \<times> Elf_Addr \<times> Elf_Sym \<times> string)" where
  "symLoop obj addr ty rdr stroff [] st = Inr (False, st)"
| "symLoop obj addr ty rdr stroff (off # offs) (lowest, symv, nm) =
     (case deref rdr off stroff of Inl e \<Rightarrow> Inl e
      | Inr (candidate, cname) \<Rightarrow>
          if unat (st_shndx candidate) \<ge> length (sectionHeaders obj)
          then symLoop obj addr ty rdr stroff offs (lowest, symv, nm)
          else if sh_flags (sectionHeaders obj ! unat (st_shndx candidate)) AND SHF_ALLOC = 0
          then symLoop obj addr ty rdr stroff offs (lowest, symv, nm)
          else if ty \<noteq> STT_NOTYPE \<and> ELF_ST_TYPE (st_info candidate) \<noteq> ty
          then symLoop obj addr ty rdr stroff offs (lowest, symv, nm)
          else if st_value candidate > addr
          then symLoop obj addr ty rdr stroff offs (lowest, symv, nm)
          else if st_size candidate \<noteq> 0
          then (if st_size candidate + st_value candidate > addr
                then Inr (True, lowest, candidate, cname)
                else symLoop obj addr ty rdr stroff offs (lowest, symv, nm))
          else if lowest < st_value candidate
          then symLoop obj addr ty rdr stroff offs (st_value candidate, candidate, cname)
          else symLoop obj addr ty rdr stroff offs (lowest, symv, nm))"

text \<open>The outer loop over \<^verbatim>\<open>sectionNames\<close>, and the function itself.\<close>

fun sectionLoop ::
  "ElfObject \<Rightarrow> Elf_Addr \<Rightarrow> int \<Rightarrow> string list \<Rightarrow>
   Elf_Addr \<times> Elf_Sym \<times> string \<Rightarrow> fault + (bool \<times> Elf_Sym \<times> string)" where
  "sectionLoop obj addr ty [] (lowest, symv, nm) = Inr (lowest \<noteq> 0, symv, nm)"
| "sectionLoop obj addr ty (sn # sns) st =
     (let symSection = getSection obj sn SHT_NULL in
      case snd symSection of
        None \<Rightarrow> sectionLoop obj addr ty sns st
      | Some shdr \<Rightarrow>
          if sh_type shdr = SHT_NOBITS then sectionLoop obj addr ty sns st
          else
            (case SymbolSection (fst symSection) shdr of Inl e \<Rightarrow> Inl e
             | Inr (offs, stroff) \<Rightarrow>
                 (case symLoop obj addr ty (io (fst symSection)) stroff offs st of Inl e \<Rightarrow> Inl e
                  | Inr (returned, st') \<Rightarrow>
                      if returned then Inr (True, snd st')
                      else sectionLoop obj addr ty sns st')))"

definition sectionNames :: "string list" where
  "sectionNames = [''.symtab'', ''.dynsym'']"

definition findSymbolByAddress ::
  "ElfObject \<Rightarrow> Elf_Addr \<Rightarrow> int \<Rightarrow> Elf_Sym \<Rightarrow> string \<Rightarrow> fault + (bool \<times> Elf_Sym \<times> string)" where
  "findSymbolByAddress obj addr ty symv nm = sectionLoop obj addr ty sectionNames (0, symv, nm)"

subsection \<open>Lookup by name\<close>

text \<open>\<^verbatim>\<open>linearSymSearch\<close>: the first entry of the table that carries the name. As in
  \<open>getSymbols\<close> below, the view of a null section is taken to yield no entry.\<close>

fun linearLoop :: "Reader \<Rightarrow> Elf_Off \<Rightarrow> string \<Rightarrow> Elf_Off list \<Rightarrow> Elf_Sym \<Rightarrow> fault + (bool \<times> Elf_Sym)" where
  "linearLoop rdr stroff nm [] symv = Inr (False, symv)"
| "linearLoop rdr stroff nm (off # offs) symv =
     (case deref rdr off stroff of Inl e \<Rightarrow> Inl e
      | Inr info \<Rightarrow> if nm = snd info then Inr (True, fst info) else linearLoop rdr stroff nm offs symv)"

definition linearSymSearch :: "ElfSection \<Rightarrow> string \<Rightarrow> Elf_Sym \<Rightarrow> fault + (bool \<times> Elf_Sym)" where
  "linearSymSearch section nm symv =
     (case snd section of None \<Rightarrow> Inr (False, symv)
      | Some shdr \<Rightarrow>
          (case SymbolSection (fst section) shdr of Inl e \<Rightarrow> Inl e
           | Inr (offs, stroff) \<Rightarrow> linearLoop (io (fst section)) stroff nm offs symv))"

text \<open>
  \<^verbatim>\<open>elf_hash\<close>, on 32-bit unsigned values. The characters of a \<^verbatim>\<open>std::string\<close>
  are \<^verbatim>\<open>char\<close>, signed on the platforms the program is built for, so a byte is
  sign-extended when it is added.
\<close>

definition elf_hash_step :: "32 word \<Rightarrow> char \<Rightarrow> 32 word" where
  "elf_hash_step h c =
     (let h1 = push_bit 4 h + scast (of_char c :: 8 word);
          g = h1 AND 0xf0000000;
          h2 = (if g \<noteq> 0 then h1 XOR drop_bit 24 g else h1)
      in h2 AND NOT g)"

definition elf_hash :: "string \<Rightarrow> 32 word" where
  "elf_hash nm = foldl elf_hash_step 0 nm"

text \<open>
  The probing loop of \<^verbatim>\<open>ElfSymHash::findSymbol\<close>, from index \<open>i\<close> on. Nothing in
  the loop bounds the number of steps: a chain that runs in a circle never ends, which
  is the value \<open>None\<close>.
\<close>

definition chains_at :: "ElfSymHash \<Rightarrow> Elf_Word \<Rightarrow> fault + Elf_Word" where
  "chains_at h i = at_index (data h) (2 + unat (nbucket h) + unat i)"

definition buckets_at :: "ElfSymHash \<Rightarrow> Elf_Word \<Rightarrow> fault + Elf_Word" where
  "buckets_at h b = at_index (data h) (2 + unat b)"

partial_function (option) chainLoop ::
  "Reader \<Rightarrow> ElfSymHash \<Rightarrow> string \<Rightarrow> Elf_Word \<Rightarrow> (fault + (Elf_Sym \<times> string) option) option" where
  "chainLoop rdr h nm i =
     (if i = STN_UNDEF then Some (Inr None)
      else
        case deref rdr (sh_offset (syms h) + ucast i * of_nat sizeof_Sym) (strings h) of
          Inl e \<Rightarrow> Some (Inl e)
        | Inr (candidate, candidateName) \<Rightarrow>
            if candidateName = nm then Some (Inr (Some (candidate, candidateName)))
            else (case chains_at h i of Inl e \<Rightarrow> Some (Inl e)
                  | Inr j \<Rightarrow> chainLoop rdr h nm j))"

text \<open>
  \<^verbatim>\<open>ElfSymHash::findSymbol\<close>; \<open>rdr\<close> is \<^verbatim>\<open>syms.obj.io\<close>. The result is the
  returned flag with the two reference parameters.
\<close>

definition findSymbol ::
  "Reader \<Rightarrow> ElfSymHash \<Rightarrow> Elf_Sym \<Rightarrow> string \<Rightarrow> (fault + (bool \<times> Elf_Sym \<times> string)) option" where
  "findSymbol rdr h symv nm =
     (if nbucket h = 0 then Some (Inl DivByZero)
      else
        case buckets_at h (elf_hash nm mod nbucket h) of
          Inl e \<Rightarrow> Some (Inl e)
        | Inr i \<Rightarrow>
            (case chainLoop rdr h nm i of
               None \<Rightarrow> None
             | Some (Inl e) \<Rightarrow> Some (Inl e)
             | Some (Inr None) \<Rightarrow> Some (Inr (False, symv, nm))
             | Some (Inr (Some (candidate, candidateName))) \<Rightarrow>
                 Some (Inr (True, candidate, candidateName))))"

subsection \<open>The entries in the order of the scan\<close>

text \<open>
  To state what \<open>findSymbolByAddress\<close> meets before a given symbol: the results of
  reading the entries of one named table, as the loops of \<open>sectionLoop\<close> and
  \<open>symLoop\<close> obtain them, and their sequence over \<open>sectionNames\<close>. A table whose
  string section cannot be fetched contributes that fault.
\<close>

text \<open>
  The tests that a candidate passes before its size is looked at, and the test of an
  exact match, which makes \<open>symLoop\<close> return.
\<close>

definition eligible :: "ElfObject \<Rightarrow> Elf_Addr \<Rightarrow> int \<Rightarrow> Elf_Sym \<Rightarrow> bool" where
  "eligible obj addr ty candidate \<longleftrightarrow>
     \<not> unat (st_shndx candidate) \<ge> length (sectionHeaders obj) \<and>
     \<not> (sh_flags (sectionHeaders obj ! unat (st_shndx candidate)) AND SHF_ALLOC = 0) \<and>
     \<not> (ty \<noteq> STT_NOTYPE \<and> ELF_ST_TYPE (st_info candidate) \<noteq> ty) \<and>
     \<not> st_value candidate > addr"

definition exact :: "ElfObject \<Rightarrow> Elf_Addr \<Rightarrow> int \<Rightarrow> Elf_Sym \<Rightarrow> bool" where
  "exact obj addr ty candidate \<longleftrightarrow>
     eligible obj addr ty candidate \<and> st_size candidate \<noteq> 0 \<and>
     st_size candidate + st_value candidate > addr"

definition entriesOf :: "ElfObject \<Rightarrow> string \<Rightarrow> (fault + Elf_Sym \<times> string) list" where
  "entriesOf obj sn =
     (let symSection = getSection obj sn SHT_NULL in
      case snd symSection of
        None \<Rightarrow> []
      | Some shdr \<Rightarrow>
          if sh_type shdr = SHT_NOBITS then []
          else (case SymbolSection (fst symSection) shdr of
                  Inl e \<Rightarrow> [Inl e]
                | Inr (offs, stroff) \<Rightarrow> map (\<lambda>off. deref (io (fst symSection)) off stroff) offs))"

definition candidates :: "ElfObject \<Rightarrow> (fault + Elf_Sym \<times> string) list" where
  "candidates obj = concat (map (entriesOf obj) sectionNames)"


subsection \<open>Symbols on a hash chain\<close>

text \<open>
  To state that a hash table covers a symbol: the walk of \<open>chainLoop\<close> from index
  \<open>i\<close> reaches index \<open>t\<close> in at most \<open>fuel\<close> links, over indices that are not
  \<open>STN_UNDEF\<close>, lie below the number \<open>n\<close> of entries of the symbol table, and have
  their link inside the hash data.
\<close>

fun chain_reaches :: "ElfSymHash \<Rightarrow> nat \<Rightarrow> nat \<Rightarrow> Elf_Word \<Rightarrow> Elf_Word \<Rightarrow> bool" where
  "chain_reaches h n 0 i t \<longleftrightarrow> i = t"
| "chain_reaches h n (Suc fuel) i t \<longleftrightarrow>
     i = t \<or>
     (i \<noteq> STN_UNDEF \<and> unat i < n \<and>
      (case chains_at h i of Inl e \<Rightarrow> False | Inr j \<Rightarrow> chain_reaches h n fuel j t))"


subsection \<open>The hash of the ABI\<close>

text \<open>
  The spec's words for the hash, to compare \<open>elf_hash\<close> with: the classic SysV ELF
  hash, which shifts by four bits and folds the top nibble, as the System V ABI gives
  it. The ABI reads the name as \<^verbatim>\<open>unsigned char\<close>: a byte is added as a value from
  0 to 255. A linker fills the buckets and chains of a hash table by this function.
\<close>

definition spec_sysv_hash_step :: "32 word \<Rightarrow> char \<Rightarrow> 32 word" where
  "spec_sysv_hash_step h c =
     (let h1 = push_bit 4 h + of_nat (of_char c);
          g = h1 AND 0xf0000000;
          h2 = (if g \<noteq> 0 then h1 XOR drop_bit 24 g else h1)
      in h2 AND NOT g)"

definition spec_sysv_hash :: "string \<Rightarrow> 32 word" where
  "spec_sysv_hash nm = foldl spec_sysv_hash_step 0 nm"


section \<open>The vtable scanner\<close>

subsection \<open>The glob matcher\<close>

text \<open>
  \<^verbatim>\<open>globmatchR\<close> works on two C strings. A pointer is modelled by the bytes that can
  be read from it on: the characters of the string, its terminating NUL, and whatever
  memory follows the terminator. \<^verbatim>\<open>*p\<close> is the head, \<^verbatim>\<open>++p\<close> the tail, and a
  read where no byte is left is a read outside the memory of the model.

  \<open>globmatchR\<close> is one turn of the outer \<^verbatim>\<open>for (;; name++)\<close> loop, \<open>globstar\<close> the
  inner loop of the \<^verbatim>\<open>'*'\<close> case, entered with the pattern after the star.
\<close>

function globmatchR :: "char list \<Rightarrow> char list \<Rightarrow> fault + int"
  and globstar :: "char list \<Rightarrow> char list \<Rightarrow> fault + int" where
  "globmatchR [] nm = Inl OutOfBounds"
| "globmatchR (p # rest) nm =
     (if p = CHR ''*'' then globstar rest nm
      else (case nm of
              [] \<Rightarrow> Inl OutOfBounds
            | n # nm' \<Rightarrow>
                if n \<noteq> p then Inr 0
                else if p = CHR 0x00 then Inr 1
                else globmatchR rest nm'))"
| "globstar rest nm =
     (case globmatchR rest (tl nm) of
        Inl e \<Rightarrow> Inl e
      | Inr r \<Rightarrow>
          if r \<noteq> 0 then Inr 1
          else (case tl nm of
                  [] \<Rightarrow> Inl OutOfBounds
                | n # nm' \<Rightarrow> if n = CHR 0x00 then Inr 0 else globstar rest (tl nm)))"
  by pat_completeness auto
termination
  by (relation "measure (\<lambda>x. case x of
          Inl (pattern, nm) \<Rightarrow> 2 * (length pattern + length nm) + 1
        | Inr (rest, nm) \<Rightarrow> 2 * (length rest + 1 + length nm))")
    (auto, case_tac nm, auto)

text \<open>
  \<^verbatim>\<open>globmatch\<close> passes the \<^verbatim>\<open>c_str()\<close> of both strings. \<open>after\<close> stands for the bytes
  that lie behind the terminator of the name's buffer; the pattern is never read
  behind its terminator.
\<close>

definition globmatch :: "char list \<Rightarrow> string \<Rightarrow> string \<Rightarrow> fault + int" where
  "globmatch after pattern nm = globmatchR (pattern @ [CHR 0x00]) (nm @ CHR 0x00 # after)"

definition default_pattern :: string where
  "default_pattern = ''_ZTV*''"

subsection \<open>Listed symbols and the bisection\<close>

record ListedSymbol =
  lsym :: Elf_Sym
  objbase :: Elf_Off
  objname :: string
  count :: "64 word"
  name :: string

definition memaddr :: "ListedSymbol \<Rightarrow> Elf_Off" where
  "memaddr l = st_value (lsym l) + objbase l"

text \<open>\<^verbatim>\<open>operator < (const ListedSymbol &, Elf_Off)\<close>.\<close>

definition lt_addr :: "ListedSymbol \<Rightarrow> Elf_Off \<Rightarrow> bool" where
  "lt_addr l addr \<longleftrightarrow> memaddr l + st_size (lsym l) < addr"

text \<open>
  \<^verbatim>\<open>std::lower_bound\<close> over \<^verbatim>\<open>[first, first + len)\<close>, as the standard library
  implements it: halve the range, go right when the middle element is less than the
  value.
\<close>

function lower_bound :: "ListedSymbol list \<Rightarrow> nat \<Rightarrow> nat \<Rightarrow> Elf_Off \<Rightarrow> nat" where
  "lower_bound xs first len v =
     (if len > 0
      then (let half = len div 2; middle = first + half
            in if lt_addr (xs ! middle) v
               then lower_bound xs (middle + 1) (len - half - 1) v
               else lower_bound xs first half v)
      else first)"
  by pat_completeness auto
termination
  by (relation "measure (\<lambda>(xs, first, len, v). len)") auto

subsection \<open>The scan of a page\<close>

text \<open>What the scan writes to \<^verbatim>\<open>cout\<close>: the line of the reference search, and the
  line of \<^verbatim>\<open>showaddrs\<close> with the symbol's name, the offset into it and the address of
  the word.\<close>

datatype printed =
    RefLine Elf_Off
  | HitLine string Elf_Off Elf_Off
  | StrLine Elf_Off
  | CountLine "64 word" string string

text \<open>
  The body of the loop over the words of a page, for the word \<open>p\<close> at index \<open>i\<close> of
  the page read at \<open>loc\<close>. \<open>p\<close> is an \<^verbatim>\<open>intptr_t\<close>; it is compared with unsigned
  64-bit values, so the comparisons are unsigned, and \<^verbatim>\<open>p % 4 == 0\<close> holds when its
  two low bits are zero.
\<close>

definition scanWord ::
  "bool \<Rightarrow> bool \<Rightarrow> Elf_Off \<Rightarrow> Elf_Off \<Rightarrow> Elf_Off \<Rightarrow> nat \<Rightarrow> 64 word \<Rightarrow>
   ListedSymbol list \<times> printed list \<Rightarrow> ListedSymbol list \<times> printed list" where
  "scanWord findRef showaddrs minval maxval loc i p st =
     (let listed = fst st; out = snd st in
      if findRef
      then (if p \<ge> minval \<and> p < maxval \<and> p mod 4 = 0
            then (listed, out @ [RefLine loc])
            else st)
      else (let found = lower_bound listed 0 (length listed) p
            in if found \<noteq> length listed \<and> memaddr (listed ! found) \<le> p \<and>
                  memaddr (listed ! found) + st_size (lsym (listed ! found)) > p
               then (listed[found := (listed ! found)\<lparr> count := count (listed ! found) + 1 \<rparr>],
                     if showaddrs
                     then out @ [HitLine (name (listed ! found)) (p - memaddr (listed ! found))
                                         (loc + of_nat (i * 8))]
                     else out)
               else st))"

text \<open>The loop over the words of the page, \<^verbatim>\<open>page.pointers[0]\<close> first.\<close>

definition scanPage ::
  "bool \<Rightarrow> bool \<Rightarrow> Elf_Off \<Rightarrow> Elf_Off \<Rightarrow> Elf_Off \<Rightarrow> 64 word list \<Rightarrow>
   ListedSymbol list \<times> printed list \<Rightarrow> ListedSymbol list \<times> printed list" where
  "scanPage findRef showaddrs minval maxval loc page st =
     foldl (\<lambda>s i. scanWord findRef showaddrs minval maxval loc i (page ! i) s) st [0 ..< length page]"

text \<open>
  The spec's words for the same step, to compare with: the candidate is the greatest
  entry of the address-sorted list with address at most the word, a hit requires
  address + size above the word, and a hit increments that entry's counter.
\<close>

definition spec_candidate :: "ListedSymbol list \<Rightarrow> Elf_Off \<Rightarrow> nat option" where
  "spec_candidate listed w =
     (case filter (\<lambda>i. memaddr (listed ! i) \<le> w) [0 ..< length listed] of
        [] \<Rightarrow> None
      | c # cs \<Rightarrow> Some (last (c # cs)))"

definition spec_countWord :: "ListedSymbol list \<Rightarrow> Elf_Off \<Rightarrow> ListedSymbol list" where
  "spec_countWord listed w =
     (case spec_candidate listed w of
        None \<Rightarrow> listed
      | Some c \<Rightarrow>
          if memaddr (listed ! c) + st_size (lsym (listed ! c)) > w
          then listed[c := (listed ! c)\<lparr> count := count (listed ! c) + 1 \<rparr>]
          else listed)"


subsection \<open>The program\<close>

text \<open>
  \<^verbatim>\<open>Process\<close>, \<^verbatim>\<open>CoreProcess\<close> and \<^verbatim>\<open>load\<close> (procinfo.h) are not among the
  sources: a process is taken as its list of loaded objects and the two reads of its
  address space that the scan makes, the words of a page (\<^verbatim>\<open>readObj\<close>, which
  throws where it cannot read) and the bytes of a string buffer (\<^verbatim>\<open>read\<close>).
\<close>

record LoadedObject =
  reloc :: Elf_Off
  object :: ElfObject

record Process =
  objects :: "LoadedObject list"
  pageAt :: "Elf_Off \<Rightarrow> nat \<Rightarrow> 64 word list option"
  bytesAt :: "Elf_Off \<Rightarrow> nat \<Rightarrow> string option"

text \<open>
  What the program takes from outside: the files that can be opened, with their
  readers; \<^verbatim>\<open>strtoll\<close>; \<^verbatim>\<open>getpagesize\<close>; the construction of a
  \<^verbatim>\<open>CoreProcess\<close> and its \<^verbatim>\<open>load\<close>; and the bytes that lie behind the
  terminator of a symbol name handed to \<open>globmatch\<close>.
\<close>

record Env =
  files :: "string \<Rightarrow> Reader option"
  strtoll :: "string \<Rightarrow> 64 word"
  pagesize :: nat
  coreProcess :: "ElfObject option \<Rightarrow> ElfObject \<Rightarrow> fault + Process"
  load :: "Process \<Rightarrow> fault + Process"
  behind :: "string \<Rightarrow> string"

text \<open>The local variables of \<^verbatim>\<open>mainExcept\<close> that the options set, and the patterns.\<close>

record Config =
  cfg_findRef :: bool
  cfg_verbose :: int
  cfg_showaddrs :: bool
  cfg_minval :: Elf_Off
  cfg_maxval :: Elf_Off
  cfg_findstr :: "string option"
  cfg_virtpatterns :: "string list"

definition initialConfig :: Config where
  "initialConfig = \<lparr> cfg_findRef = False, cfg_verbose = 0, cfg_showaddrs = False, cfg_minval = 0,
                      cfg_maxval = 0, cfg_findstr = None, cfg_virtpatterns = [] \<rparr>"

text \<open>
  \<^verbatim>\<open>ElfObject::ElfObject(string)\<close>: a file that cannot be opened makes the reader
  throw; otherwise \<open>init\<close> runs on the file's reader.
\<close>

definition ElfObject_open :: "Env \<Rightarrow> string \<Rightarrow> fault + ElfObject" where
  "ElfObject_open env nm =
     (case files env nm of
        None \<Rightarrow> Inl ReadError
      | Some rdr \<Rightarrow> (case init rdr of Inl e \<Rightarrow> Inl e | Inr obj \<Rightarrow> Inr (obj\<lparr> elfname := nm \<rparr>)))"

text \<open>
  The \<^verbatim>\<open>getopt\<close> loop over the options that \<^verbatim>\<open>getopt\<close> hands out, each with
  its argument; an option that is not in the option string comes as \<^verbatim>\<open>'?'\<close>.
  The result is the value returned from \<^verbatim>\<open>mainExcept\<close> inside the loop, or the
  settings after it.
\<close>

fun getoptLoop :: "Env \<Rightarrow> (char \<times> string) list \<Rightarrow> Config \<Rightarrow> fault + (int + Config)" where
  "getoptLoop env [] cfg = Inr (Inr cfg)"
| "getoptLoop env ((c, optarg) # rest) cfg =
     (if c = CHR ''p'' then
        getoptLoop env rest (cfg\<lparr> cfg_virtpatterns := cfg_virtpatterns cfg @ [optarg] \<rparr>)
      else if c = CHR ''s'' then getoptLoop env rest (cfg\<lparr> cfg_showaddrs := True \<rparr>)
      else if c = CHR ''v'' then getoptLoop env rest (cfg\<lparr> cfg_verbose := cfg_verbose cfg + 1 \<rparr>)
      else if c = CHR ''h'' then Inr (Inl 0)
      else if c = CHR ''S'' then getoptLoop env rest (cfg\<lparr> cfg_findstr := Some optarg \<rparr>)
      else if c = CHR ''f'' then
        getoptLoop env rest
          (cfg\<lparr> cfg_findRef := True, cfg_minval := strtoll env optarg, cfg_maxval := strtoll env optarg \<rparr>)
      else if c = CHR ''e'' then
        (if \<not> cfg_findRef cfg then Inl Aborted
         else getoptLoop env rest (cfg\<lparr> cfg_maxval := strtoll env optarg \<rparr>))
      else getoptLoop env rest cfg)"

text \<open>The \<^verbatim>\<open>case 'X'\<close> of the switch is not in the option string, so \<^verbatim>\<open>getopt\<close>
  never hands it out; like every other character it leaves the settings as they are.\<close>

text \<open>The two \<^verbatim>\<open>if\<close>s over the positional arguments, and \<^verbatim>\<open>process->load()\<close> on a
  pointer that is null when no argument is left.\<close>

definition openTargets :: "Env \<Rightarrow> string list \<Rightarrow> fault + (ElfObject \<times> Process)" where
  "openTargets env args =
     (case (if length args \<ge> 2
            then (case ElfObject_open env (args ! 0) of Inl e \<Rightarrow> Inl e
                  | Inr exec \<Rightarrow> Inr (Some exec, tl args))
            else Inr (None, args)) of
        Inl e \<Rightarrow> Inl e
      | Inr (exec, args') \<Rightarrow>
          if length args' \<ge> 1
          then (case ElfObject_open env (args' ! 0) of Inl e \<Rightarrow> Inl e
                | Inr core \<Rightarrow>
                    (case coreProcess env exec core of Inl e \<Rightarrow> Inl e
                     | Inr process \<Rightarrow>
                         (case load env process of Inl e \<Rightarrow> Inl e
                          | Inr process' \<Rightarrow> Inr (core, process'))))
          else Inl NullDeref)"

text \<open>The loop over the patterns for one symbol name, up to the first match.\<close>

fun matchesAny :: "Env \<Rightarrow> string list \<Rightarrow> string \<Rightarrow> fault + bool" where
  "matchesAny env [] nm = Inr False"
| "matchesAny env (virtpattern # ps) nm =
     (case globmatch (behind env nm) virtpattern nm of Inl e \<Rightarrow> Inl e
      | Inr r \<Rightarrow> if r \<noteq> 0 then Inr True else matchesAny env ps nm)"

text \<open>
  \<^verbatim>\<open>ElfObject::getSymbols\<close> and the loops that fill \<^verbatim>\<open>listed\<close>. Modelled from
  the spec: the symbol view of a table that the object does not have (its constructor
  is in elfinfo.h) yields no entry.
\<close>

definition getSymbols :: "ElfObject \<Rightarrow> string \<Rightarrow> fault + (Reader \<times> Elf_Off list \<times> Elf_Off)" where
  "getSymbols obj table =
     (let section = getSection obj table SHT_NULL in
      case snd section of
        None \<Rightarrow> Inr (io (fst section), [], 0)
      | Some shdr \<Rightarrow>
          (case SymbolSection (fst section) shdr of Inl e \<Rightarrow> Inl e
           | Inr (offs, stroff) \<Rightarrow> Inr (io (fst section), offs, stroff)))"

fun listEntries ::
  "Env \<Rightarrow> string list \<Rightarrow> LoadedObject \<Rightarrow> Reader \<Rightarrow> Elf_Off \<Rightarrow> Elf_Off list \<Rightarrow>
   ListedSymbol list \<Rightarrow> fault + ListedSymbol list" where
  "listEntries env pats loaded rdr stroff [] listed = Inr listed"
| "listEntries env pats loaded rdr stroff (off # offs) listed =
     (case deref rdr off stroff of Inl e \<Rightarrow> Inl e
      | Inr (s, nm) \<Rightarrow>
          (case matchesAny env pats nm of Inl e \<Rightarrow> Inl e
           | Inr m \<Rightarrow>
               listEntries env pats loaded rdr stroff offs
                 (if m
                  then listed @ [\<lparr> lsym = s, objbase = reloc loaded,
                                   objname = describe (io (object loaded)), count = 0, name = nm \<rparr>]
                  else listed)))"

fun listTables ::
  "Env \<Rightarrow> string list \<Rightarrow> LoadedObject \<Rightarrow> string list \<Rightarrow> ListedSymbol list \<Rightarrow> fault + ListedSymbol list" where
  "listTables env pats loaded [] listed = Inr listed"
| "listTables env pats loaded (table # tables) listed =
     (case getSymbols (object loaded) table of Inl e \<Rightarrow> Inl e
      | Inr (rdr, offs, stroff) \<Rightarrow>
          (case listEntries env pats loaded rdr stroff offs listed of Inl e \<Rightarrow> Inl e
           | Inr listed' \<Rightarrow> listTables env pats loaded tables listed'))"

fun listObjects ::
  "Env \<Rightarrow> string list \<Rightarrow> LoadedObject list \<Rightarrow> ListedSymbol list \<Rightarrow> fault + ListedSymbol list" where
  "listObjects env pats [] listed = Inr listed"
| "listObjects env pats (loaded # rest) listed =
     (case listTables env pats loaded [''.dynsym'', ''.symtab''] listed of Inl e \<Rightarrow> Inl e
      | Inr listed' \<Rightarrow> listObjects env pats rest listed')"

text \<open>The search for a literal string in one segment, byte by byte up to \<open>bound\<close>.\<close>

function stringLoop :: "Process \<Rightarrow> string \<Rightarrow> Elf_Off \<Rightarrow> Elf_Off \<Rightarrow> printed list \<Rightarrow> fault + printed list" where
  "stringLoop process findstr loc bound out =
     (if loc < bound
      then (case bytesAt process loc (length findstr) of
              None \<Rightarrow> Inl ReadError
            | Some strbuf \<Rightarrow>
                stringLoop process findstr (loc + 1) bound
                  (if take (length findstr) strbuf = findstr then out @ [StrLine loc] else out))
      else Inr out)"
  by pat_completeness auto
termination
proof (relation "measure (\<lambda>(process, findstr, loc, bound, out). unat (bound - loc))")
  show "wf (measure (\<lambda>(process, findstr, loc, bound, out). unat (bound - loc)))" by simp
next
  fix process :: "'a Process_scheme" and findstr :: string and loc bound :: Elf_Off
    and out :: "printed list" and x2 :: string
  assume "loc < bound"
  then have "unat (bound - (loc + 1)) < unat (bound - loc)"
    by unat_arith
  then show "((process, findstr, loc + 1, bound,
               if take (length findstr) x2 = findstr then out @ [StrLine loc] else out),
              process, findstr, loc, bound, out)
             \<in> measure (\<lambda>(process, findstr, loc, bound, out). unat (bound - loc))"
    by simp
qed

text \<open>
  The sweep over the pages of one segment. The address \<open>loc\<close> wraps around as a
  64-bit value does, so the loop need not end: not returning is the value \<open>None\<close>.
\<close>

partial_function (option) pageLoop ::
  "Env \<Rightarrow> Process \<Rightarrow> Config \<Rightarrow> Elf_Phdr \<Rightarrow> Elf_Off \<Rightarrow> ListedSymbol list \<times> printed list \<Rightarrow>
   (fault + ListedSymbol list \<times> printed list) option" where
  "pageLoop env process cfg hdr loc st =
     (if loc < p_vaddr hdr + p_filesz hdr
      then (case pageAt process loc (pagesize env) of
              None \<Rightarrow> Some (Inl ReadError)
            | Some page \<Rightarrow>
                pageLoop env process cfg hdr (loc + of_nat (pagesize env))
                  (scanPage (cfg_findRef cfg) (cfg_showaddrs cfg) (cfg_minval cfg) (cfg_maxval cfg)
                     loc (take (pagesize env div 8) page) st))
      else Some (Inr st))"

text \<open>The loop over the segments of the core; a failed \<^verbatim>\<open>assert\<close> aborts.\<close>

fun segmentLoop ::
  "Env \<Rightarrow> Process \<Rightarrow> Config \<Rightarrow> Elf_Phdr list \<Rightarrow> ListedSymbol list \<times> printed list \<Rightarrow>
   (fault + ListedSymbol list \<times> printed list) option" where
  "segmentLoop env process cfg [] st = Some (Inr st)"
| "segmentLoop env process cfg (hdr # hdrs) st =
     (if p_type hdr \<noteq> PT_LOAD then segmentLoop env process cfg hdrs st
      else
        (case cfg_findstr cfg of
           Some findstr \<Rightarrow>
             (case stringLoop process findstr (p_vaddr hdr)
                     (p_vaddr hdr + p_filesz hdr - of_nat (length findstr)) (snd st) of
                Inl e \<Rightarrow> Some (Inl e)
              | Inr out \<Rightarrow> segmentLoop env process cfg hdrs (fst st, out))
         | None \<Rightarrow>
             if p_vaddr hdr mod of_nat (pagesize env) \<noteq> 0 then Some (Inl Aborted)
             else
               (case pageLoop env process cfg hdr (p_vaddr hdr) st of
                  None \<Rightarrow> None
                | Some (Inl e) \<Rightarrow> Some (Inl e)
                | Some (Inr st') \<Rightarrow> segmentLoop env process cfg hdrs st')))"

text \<open>
  \<^verbatim>\<open>mainExcept\<close>. \<^verbatim>\<open>std::sort\<close> leaves the order of equal elements open; the
  model sorts stably, in both sorts: elements of equal address, and rows of equal
  count, keep the order they had. The result is the returned value with the lines
  written to \<^verbatim>\<open>cout\<close>.
\<close>

definition mainExcept ::
  "Env \<Rightarrow> (char \<times> string) list \<Rightarrow> string list \<Rightarrow> (fault + int \<times> printed list) option" where
  "mainExcept env opts args =
     (case getoptLoop env opts initialConfig of
        Inl e \<Rightarrow> Some (Inl e)
      | Inr (Inl rc) \<Rightarrow> Some (Inr (rc, []))
      | Inr (Inr cfg) \<Rightarrow>
          (case openTargets env args of
             Inl e \<Rightarrow> Some (Inl e)
           | Inr (core, process) \<Rightarrow>
               (let pats = (if cfg_virtpatterns cfg = [] then [default_pattern]
                            else cfg_virtpatterns cfg)
                in case listObjects env pats (objects process) [] of
                     Inl e \<Rightarrow> Some (Inl e)
                   | Inr listed \<Rightarrow>
                       (case segmentLoop env process cfg (getSegments core)
                               (sort_key memaddr listed, []) of
                          None \<Rightarrow> None
                        | Some (Inl e) \<Rightarrow> Some (Inl e)
                        | Some (Inr (counted, out)) \<Rightarrow>
                            Some (Inr (0, out @
                              map (\<lambda>i. CountLine (count i) (name i) (objname i))
                                (filter (\<lambda>i. count i \<noteq> 0) (rev (sort_key count (rev counted))))))))))"

text \<open>
  \<^verbatim>\<open>main\<close>: an exception that leaves \<^verbatim>\<open>mainExcept\<close> is caught and turned into
  the return value \<open>-1\<close>; the other faults are not exceptions and are not caught.
\<close>

definition main :: "Env \<Rightarrow> (char \<times> string) list \<Rightarrow> string list \<Rightarrow> (fault + int) option" where
  "main env opts args =
     (case mainExcept env opts args of
        None \<Rightarrow> None
      | Some (Inl ex) \<Rightarrow> if is_exception ex then Some (Inr (- 1)) else Some (Inl ex)
      | Some (Inr (rc, out)) \<Rightarrow> Some (Inr rc))"


section \<open>Concrete images\<close>

text \<open>
  A reader over a small file image given as tables: the structure stored at each offset
  that can be read. A read anywhere else throws; a read of words succeeds when the
  image holds at least as many words at that offset.
\<close>

definition imageReader ::
  "Elf_Ehdr \<Rightarrow> (Elf_Off \<times> Elf_Phdr) list \<Rightarrow> (Elf_Off \<times> Elf_Shdr) list \<Rightarrow>
   (Elf_Off \<times> Elf_Sym) list \<Rightarrow> (Elf_Off \<times> Elf_Word list) list \<Rightarrow> (Elf_Off \<times> string) list \<Rightarrow> Reader" where
  "imageReader hdr phs shs sys ws strs =
     \<lparr> describe = ''image'',
       readEhdr = map_of [(0, hdr)],
       readPhdr = map_of phs,
       readShdr = map_of shs,
       readSym = map_of sys,
       readWords = (\<lambda>off n. case map_of ws off of None \<Rightarrow> None
                              | Some w \<Rightarrow> if n \<le> length w then Some (take n w) else None),
       readString = map_of strs \<rparr>"

definition elfIdent :: "8 word list" where
  "elfIdent = [0x7f, 0x45, 0x4c, 0x46, 2, 1, 1, 0, 0, 0, 0, 0, 0, 0, 0, 0]"

text \<open>A header with the ELF magic, no program headers and no sections.\<close>

definition plainHeader :: Elf_Ehdr where
  "plainHeader = \<lparr> e_ident = elfIdent, e_phoff = 0, e_shoff = 0, e_phentsize = 56, e_phnum = 0,
                   e_shentsize = 64, e_shnum = 0, e_shstrndx = 0 \<rparr>"

definition plainReader :: Reader where
  "plainReader = imageReader plainHeader [] [] [] [] []"

definition plainObject :: ElfObject where
  "plainObject =
     \<lparr> io = plainReader, elfname = ''image'', elfHeader = plainHeader,
       programHeaders = [], sectionHeaders = [], namedSection = Map.empty, hash = None,
       debugLoaded = False \<rparr>"

text \<open>A header whose sixteen identification bytes are zero: no magic, version 0.\<close>

definition zeroHeader :: Elf_Ehdr where
  "zeroHeader = plainHeader\<lparr> e_ident := replicate 16 0 \<rparr>"

definition nonElfReader :: Reader where
  "nonElfReader = imageReader zeroHeader [] [] [] [] []"

text \<open>A header that names section 3 as its string section and has one section.\<close>

definition nullSection :: Elf_Shdr where
  "nullSection = \<lparr> sh_name = 0, sh_type = 0, sh_flags = 0, sh_offset = 0, sh_size = 0, sh_link = 0 \<rparr>"

definition strndxHeader :: Elf_Ehdr where
  "strndxHeader = plainHeader\<lparr> e_shoff := 0x40, e_shnum := 1, e_shstrndx := 3 \<rparr>"

definition strndxReader :: Reader where
  "strndxReader = imageReader strndxHeader [] [(0x40, nullSection)] [] [] []"

text \<open>An executable with one loadable segment of 4096 bytes at 0x400000.\<close>

definition loadSegment :: Elf_Phdr where
  "loadSegment = \<lparr> p_type = 1, p_offset = 0, p_vaddr = 0x400000, p_filesz = 0x1000, p_memsz = 0x1000 \<rparr>"

definition loadObject :: ElfObject where
  "loadObject =
     \<lparr> io = imageReader (plainHeader\<lparr> e_phoff := 0x40, e_phnum := 1 \<rparr>) [(0x40, loadSegment)] [] [] [] [],
       elfname = ''image'', elfHeader = plainHeader\<lparr> e_phoff := 0x40, e_phnum := 1 \<rparr>,
       programHeaders = [loadSegment], sectionHeaders = [], namedSection = Map.empty,
       hash = None, debugLoaded = False \<rparr>"

text \<open>
  An image with a \<^verbatim>\<open>.gnu_debuglink\<close> section that names the companion
  \<^verbatim>\<open>prog.debug\<close>: sections 0 (null), 1 (\<^verbatim>\<open>.shstrtab\<close> at 0x200) and 2
  (\<^verbatim>\<open>.gnu_debuglink\<close> at 0x300).
\<close>

definition shstrtabSection :: Elf_Shdr where
  "shstrtabSection = \<lparr> sh_name = 1, sh_type = 3, sh_flags = 0, sh_offset = 0x200, sh_size = 0x100, sh_link = 0 \<rparr>"

definition debuglinkSection :: Elf_Shdr where
  "debuglinkSection = \<lparr> sh_name = 11, sh_type = 1, sh_flags = 0, sh_offset = 0x300, sh_size = 16, sh_link = 0 \<rparr>"

definition debuglinkReader :: Reader where
  "debuglinkReader =
     imageReader (plainHeader\<lparr> e_shoff := 0x40, e_shnum := 3, e_shstrndx := 1 \<rparr>) []
       [(0x40, nullSection), (0x80, shstrtabSection), (0xc0, debuglinkSection)] [] []
       [(0x200, ''''), (0x201, ''.shstrtab''), (0x20b, ''.gnu_debuglink''), (0x300, ''prog.debug'')]"

text \<open>Listed symbols for the scanner: an object symbol of a given address, size and name.\<close>

definition listedSymbol :: "Elf_Addr \<Rightarrow> 64 word \<Rightarrow> string \<Rightarrow> ListedSymbol" where
  "listedSymbol v sz nm =
     \<lparr> lsym = \<lparr> st_name = 0, st_info = 0x11, st_shndx = 1, st_value = v, st_size = sz \<rparr>,
       objbase = 0, objname = ''prog'', count = 0, name = nm \<rparr>"

text \<open>Two tables that follow each other in memory, sorted by address.\<close>

definition adjacentListed :: "ListedSymbol list" where
  "adjacentListed = [listedSymbol 0x1000 0x40 ''_ZTV1A'', listedSymbol 0x1040 0x40 ''_ZTV1B'']"

text \<open>A symbol that lies inside the range of another, sorted by address.\<close>

definition nestedListed :: "ListedSymbol list" where
  "nestedListed = [listedSymbol 0x1000 0x100 ''outer'', listedSymbol 0x1020 0x10 ''inner'']"

text \<open>A page (shortened to four words) read at 0x10000, three of whose words point into
  the range from 0x1000 to 0x2000.\<close>

definition refPage :: "64 word list" where
  "refPage = [0, 0x1000, 0x1800, 0x1ffc]"


text \<open>
  An image with a symbol table in which two function symbols, \<^verbatim>\<open>foo\<close> and its alias
  \<^verbatim>\<open>bar\<close>, cover the same 16 bytes at 0x1000 of the allocated section
  \<^verbatim>\<open>.text\<close>. Sections: 0 (null), 1 \<^verbatim>\<open>.shstrtab\<close>, 2 \<^verbatim>\<open>.text\<close>,
  3 \<^verbatim>\<open>.symtab\<close> with three entries, 4 \<^verbatim>\<open>.strtab\<close>.
\<close>

definition textSection :: Elf_Shdr where
  "textSection = \<lparr> sh_name = 11, sh_type = 1, sh_flags = 6, sh_offset = 0x1000, sh_size = 0x100, sh_link = 0 \<rparr>"

definition symtabSection :: Elf_Shdr where
  "symtabSection = \<lparr> sh_name = 17, sh_type = 2, sh_flags = 0, sh_offset = 0x400, sh_size = 72, sh_link = 4 \<rparr>"

definition strtabSection :: Elf_Shdr where
  "strtabSection = \<lparr> sh_name = 25, sh_type = 3, sh_flags = 0, sh_offset = 0x500, sh_size = 9, sh_link = 0 \<rparr>"

definition nullSym :: Elf_Sym where
  "nullSym = \<lparr> st_name = 0, st_info = 0, st_shndx = 0, st_value = 0, st_size = 0 \<rparr>"

definition fooSym :: Elf_Sym where
  "fooSym = \<lparr> st_name = 1, st_info = 0x12, st_shndx = 2, st_value = 0x1000, st_size = 0x10 \<rparr>"

definition barSym :: Elf_Sym where
  "barSym = \<lparr> st_name = 5, st_info = 0x12, st_shndx = 2, st_value = 0x1000, st_size = 0x10 \<rparr>"

definition aliasHeader :: Elf_Ehdr where
  "aliasHeader = plainHeader\<lparr> e_shoff := 0x40, e_shnum := 5, e_shstrndx := 1 \<rparr>"

definition aliasReader :: Reader where
  "aliasReader =
     imageReader aliasHeader []
       [(0x40, nullSection), (0x80, shstrtabSection), (0xc0, textSection),
        (0x100, symtabSection), (0x140, strtabSection)]
       [(0x400, nullSym), (0x418, fooSym), (0x430, barSym)] []
       [(0x200, ''''), (0x201, ''.shstrtab''), (0x20b, ''.text''), (0x211, ''.symtab''),
        (0x219, ''.strtab''), (0x500, ''''), (0x501, ''foo''), (0x505, ''bar'')]"

definition aliasObject :: ElfObject where
  "aliasObject =
     \<lparr> io = aliasReader, elfname = ''image'', elfHeader = aliasHeader,
       programHeaders = [],
       sectionHeaders = [nullSection, shstrtabSection, textSection, symtabSection, strtabSection],
       namedSection = [[] \<mapsto> nullSection, ''.shstrtab'' \<mapsto> shstrtabSection,
                       ''.text'' \<mapsto> textSection, ''.symtab'' \<mapsto> symtabSection,
                       ''.strtab'' \<mapsto> strtabSection],
       hash = None, debugLoaded = False \<rparr>"


text \<open>
  Images with a dynamic symbol table of three entries and a hash table with one bucket:
  sections 0 (null), 1 \<^verbatim>\<open>.shstrtab\<close>, 2 \<^verbatim>\<open>.text\<close>, 3 \<^verbatim>\<open>.dynsym\<close>,
  4 \<^verbatim>\<open>.dynstr\<close>, 5 \<^verbatim>\<open>.hash\<close>. The bucket holds index 2, whose chain goes on
  to index 1 and ends there. The entries and their names are parameters.
\<close>

definition dynsymSection :: Elf_Shdr where
  "dynsymSection = \<lparr> sh_name = 17, sh_type = 11, sh_flags = 2, sh_offset = 0x400, sh_size = 72, sh_link = 4 \<rparr>"

definition dynstrSection :: Elf_Shdr where
  "dynstrSection = \<lparr> sh_name = 25, sh_type = 3, sh_flags = 2, sh_offset = 0x500, sh_size = 16, sh_link = 0 \<rparr>"

definition hashSection :: Elf_Shdr where
  "hashSection = \<lparr> sh_name = 33, sh_type = 5, sh_flags = 2, sh_offset = 0x600, sh_size = 24, sh_link = 3 \<rparr>"

definition hashWords :: "Elf_Word list" where
  "hashWords = [1, 3, 2, 0, 0, 1]"

definition dynHeader :: Elf_Ehdr where
  "dynHeader = plainHeader\<lparr> e_shoff := 0x40, e_shnum := 6, e_shstrndx := 1 \<rparr>"

definition dynReader :: "Elf_Sym \<Rightarrow> Elf_Sym \<Rightarrow> (Elf_Off \<times> string) list \<Rightarrow> Reader" where
  "dynReader s1 s2 names =
     imageReader dynHeader []
       [(0x40, nullSection), (0x80, shstrtabSection), (0xc0, textSection),
        (0x100, dynsymSection), (0x140, dynstrSection), (0x180, hashSection)]
       [(0x400, nullSym), (0x418, s1), (0x430, s2)]
       [(0x600, hashWords)]
       ([(0x200, ''''), (0x201, ''.shstrtab''), (0x20b, ''.text''), (0x211, ''.dynsym''),
         (0x219, ''.dynstr''), (0x221, ''.hash''), (0x500, '''')] @ names)"

definition dynHash :: ElfSymHash where
  "dynHash = \<lparr> hashsec = hashSection, syms = dynsymSection, data = hashWords,
               nbucket = 1, nchain = 3, strings = 0x500 \<rparr>"

definition dynObject :: "Elf_Sym \<Rightarrow> Elf_Sym \<Rightarrow> (Elf_Off \<times> string) list \<Rightarrow> ElfObject" where
  "dynObject s1 s2 names =
     \<lparr> io = dynReader s1 s2 names, elfname = ''image'', elfHeader = dynHeader,
       programHeaders = [],
       sectionHeaders = [nullSection, shstrtabSection, textSection, dynsymSection,
                         dynstrSection, hashSection],
       namedSection = [[] \<mapsto> nullSection, ''.shstrtab'' \<mapsto> shstrtabSection,
                       ''.text'' \<mapsto> textSection, ''.dynsym'' \<mapsto> dynsymSection,
                       ''.dynstr'' \<mapsto> dynstrSection, ''.hash'' \<mapsto> hashSection],
       hash = Some dynHash, debugLoaded = False \<rparr>"

text \<open>Two versions of one function, both named \<^verbatim>\<open>f\<close>, as symbol versioning
  leaves them in a dynamic symbol table; and another function \<^verbatim>\<open>g\<close>.\<close>

definition fOld :: Elf_Sym where
  "fOld = \<lparr> st_name = 1, st_info = 0x12, st_shndx = 2, st_value = 0x1000, st_size = 0x10 \<rparr>"

definition fNew :: Elf_Sym where
  "fNew = \<lparr> st_name = 1, st_info = 0x12, st_shndx = 2, st_value = 0x1010, st_size = 0x10 \<rparr>"

definition gSym :: Elf_Sym where
  "gSym = \<lparr> st_name = 3, st_info = 0x12, st_shndx = 2, st_value = 0x1010, st_size = 0x10 \<rparr>"

definition versionedObject :: ElfObject where
  "versionedObject = dynObject fOld fNew [(0x501, ''f'')]"


text \<open>
  Environments for runs of the program: the given files, a page size of 4096, and a
  core process without loaded objects whose memory cannot be read. A reader whose
  header cannot be read stands for a truncated file.
\<close>

definition bareEnv :: "(string \<Rightarrow> Reader option) \<Rightarrow> Env" where
  "bareEnv fs =
     \<lparr> files = fs, strtoll = (\<lambda>s. 0), pagesize = 4096,
       coreProcess = (\<lambda>exec core. Inr \<lparr> objects = [], pageAt = (\<lambda>loc n. None),
                                            bytesAt = (\<lambda>loc n. None) \<rparr>),
       load = Inr, behind = (\<lambda>nm. []) \<rparr>"

definition truncatedReader :: Reader where
  "truncatedReader = plainReader\<lparr> readEhdr := (\<lambda>off. None) \<rparr>"


text \<open>
  Images as above whose hash table is a parameter: the header of \<^verbatim>\<open>.hash\<close> with
  the size of the table, and its words. \<open>bucketHash\<close> is the accelerator that
  \<open>init\<close> builds from such a table.
\<close>

definition bucketReader ::
  "64 word \<Rightarrow> Elf_Word list \<Rightarrow> Elf_Sym \<Rightarrow> Elf_Sym \<Rightarrow> (Elf_Off \<times> string) list \<Rightarrow> Reader" where
  "bucketReader hsize ws s1 s2 names =
     imageReader dynHeader []
       [(0x40, nullSection), (0x80, shstrtabSection), (0xc0, textSection),
        (0x100, dynsymSection), (0x140, dynstrSection), (0x180, hashSection\<lparr> sh_size := hsize \<rparr>)]
       [(0x400, nullSym), (0x418, s1), (0x430, s2)]
       [(0x600, ws)]
       ([(0x200, ''''), (0x201, ''.shstrtab''), (0x20b, ''.text''), (0x211, ''.dynsym''),
         (0x219, ''.dynstr''), (0x221, ''.hash''), (0x500, '''')] @ names)"

definition bucketHash :: "64 word \<Rightarrow> Elf_Word list \<Rightarrow> ElfSymHash" where
  "bucketHash hsize ws =
     \<lparr> hashsec = hashSection\<lparr> sh_size := hsize \<rparr>, syms = dynsymSection, data = ws,
       nbucket = ws ! 0, nchain = ws ! 1, strings = 0x500 \<rparr>"

definition bucketObject ::
  "64 word \<Rightarrow> Elf_Word list \<Rightarrow> Elf_Sym \<Rightarrow> Elf_Sym \<Rightarrow> (Elf_Off \<times> string) list \<Rightarrow> ElfObject" where
  "bucketObject hsize ws s1 s2 names =
     \<lparr> io = bucketReader hsize ws s1 s2 names, elfname = ''image'', elfHeader = dynHeader,
       programHeaders = [],
       sectionHeaders = [nullSection, shstrtabSection, textSection, dynsymSection,
                         dynstrSection, hashSection\<lparr> sh_size := hsize \<rparr>],
       namedSection = [[] \<mapsto> nullSection, ''.shstrtab'' \<mapsto> shstrtabSection,
                       ''.text'' \<mapsto> textSection, ''.dynsym'' \<mapsto> dynsymSection,
                       ''.dynstr'' \<mapsto> dynstrSection,
                       ''.hash'' \<mapsto> hashSection\<lparr> sh_size := hsize \<rparr>],
       hash = Some (bucketHash hsize ws), debugLoaded = False \<rparr>"

text \<open>
  Three buckets for the functions \<^verbatim>\<open>f\<close> (hash 0x66, bucket 0, index 1) and
  \<^verbatim>\<open>g\<close> (hash 0x67, bucket 1, index 2).
\<close>

definition threeBucketWords :: "Elf_Word list" where
  "threeBucketWords = [3, 3, 1, 2, 0, 0, 0, 0]"

definition threeBucketObject :: ElfObject where
  "threeBucketObject = bucketObject 32 threeBucketWords fOld gSym [(0x501, ''f''), (0x503, ''g'')]"

text \<open>
  Seven buckets, filled by the hash of the ABI, for a function whose name is the single
  byte 0xff (hash 0xff, bucket 3, index 1) and for \<^verbatim>\<open>g\<close> (bucket 5, index 2).
\<close>

definition sevenBucketWords :: "Elf_Word list" where
  "sevenBucketWords = [7, 3, 0, 0, 0, 1, 0, 2, 0, 0, 0, 0]"

definition sevenBucketObject :: ElfObject where
  "sevenBucketObject =
     bucketObject 48 sevenBucketWords fOld gSym [(0x501, [CHR 0xFF]), (0x503, ''g'')]"


section \<open>Properties of the ELF model\<close>

subsection \<open>The header check of init\<close>

lemma case_sum_not:
  assumes "x \<noteq> Inl t" and "\<And>v. f v \<noteq> Inl t"
  shows "(case x of Inl e \<Rightarrow> Inl e | Inr v \<Rightarrow> f v) \<noteq> Inl t"
  using assms by (cases x) auto

lemma lift_read_not_NotElf: "lift_read r \<noteq> Inl (NotElf m)"
  by (cases r) (simp_all add: lift_read_def)

lemma at_index_not_NotElf: "at_index v i \<noteq> Inl (NotElf m)"
  by (simp add: at_index_def)

lemma readHeaders_not_NotElf: "readHeaders rd off stride n \<noteq> Inl (NotElf m)"
  by (induction n arbitrary: off) (auto simp: lift_read_def split: option.splits sum.splits)

lemma nameSections_not_NotElf: "nameSections rdr sshdr hs mp \<noteq> Inl (NotElf m)"
  by (induction hs arbitrary: mp) (auto simp: lift_read_def split: option.splits sum.splits)

lemma getLink_not_NotElf: "getLink obj s \<noteq> Inl (NotElf m)"
  by (simp add: getLink_def at_index_def)

lemma ElfSymHash_new_not_NotElf: "ElfSymHash_new obj tab \<noteq> Inl (NotElf m)"
  unfolding ElfSymHash_new_def Let_def
  by (intro case_sum_not getLink_not_NotElf lift_read_not_NotElf at_index_not_NotElf) simp

text \<open>No reader makes \<open>init\<close> end with the exception for a file that is not ELF.\<close>

lemma init_never_NotElf: "init rdr \<noteq> Inl (NotElf m)"
proof -
  have tail: "(case snd (getSection obj ''.hash'' SHT_HASH) of
                 None \<Rightarrow> Inr obj
               | Some tab \<Rightarrow> (case ElfSymHash_new obj tab of Inl e \<Rightarrow> Inl e
                              | Inr h \<Rightarrow> Inr (obj\<lparr>hash := Some h\<rparr>))) \<noteq> Inl (NotElf m)" for obj
    by (cases "snd (getSection obj ''.hash'' SHT_HASH)")
       (simp_all add: case_sum_not ElfSymHash_new_not_NotElf)
  show ?thesis
    unfolding init_def Let_def
    apply (simp only: simp_thms if_False)
    apply (intro case_sum_not lift_read_not_NotElf readHeaders_not_NotElf)
    apply (simp only: split: if_split)
    apply (intro conjI impI case_sum_not at_index_not_NotElf nameSections_not_NotElf tail)
    apply simp
    done
qed

text \<open>
  C1. A file whose sixteen identification bytes are zero has neither the ELF magic nor
  the current version, and \<open>init\<close> builds an object from it instead of failing with
  the exception for a file that is not ELF.
\<close>

theorem init_accepts_non_elf:
  "\<not> IS_ELF zeroHeader \<and> e_ident zeroHeader ! EI_VERSION \<noteq> EV_CURRENT \<and>
   readEhdr nonElfReader 0 = Some zeroHeader \<and>
   init nonElfReader =
     Inr \<lparr> io = nonElfReader, elfname = ''image'', elfHeader = zeroHeader,
           programHeaders = [], sectionHeaders = [], namedSection = Map.empty, hash = None,
           debugLoaded = False \<rparr>"
  by (simp add: init_def nonElfReader_def imageReader_def zeroHeader_def plainHeader_def
      IS_ELF_def EI_VERSION_def EV_CURRENT_def lift_read_def SHN_UNDEF_def)

theorem init_accepts_non_elf_witness:
  "init nonElfReader \<noteq> Inl (NotElf (describe nonElfReader @ '': content is not an ELF image''))"
  using init_accepts_non_elf by simp

text \<open>
  C8. With one section header and \<open>e_shstrndx = 3\<close>, which is neither
  \<open>SHN_UNDEF\<close> nor below \<open>e_shnum\<close>, \<open>init\<close> fetches the header of the string
  section at index 3 of a vector of length 1: the access leaves the array.
\<close>

theorem init_shstrndx_out_of_bounds:
  "e_shstrndx strndxHeader \<noteq> SHN_UNDEF \<and> \<not> e_shstrndx strndxHeader < e_shnum strndxHeader \<and>
   readHeaders (readShdr strndxReader) (e_shoff strndxHeader) (ucast (e_shentsize strndxHeader))
     (unat (e_shnum strndxHeader)) = Inr [nullSection] \<and>
   init strndxReader = Inl OutOfBounds"
  by (simp add: init_def strndxReader_def imageReader_def strndxHeader_def plainHeader_def
      lift_read_def SHN_UNDEF_def at_index_def)

theorem init_shstrndx_out_of_bounds_witness:
  "\<not> (\<exists>obj. init strndxReader = Inr obj)"
  using init_shstrndx_out_of_bounds by simp

subsection \<open>The base address\<close>

lemma getBase_fold_le:
  "foldl (\<lambda>base i. if p_type i = PT_LOAD \<and> p_vaddr i \<le> base then p_vaddr i else base) b xs \<le> b"
  by (induction xs arbitrary: b) (auto intro: order_trans)

lemma getBase_fold_lower:
  "h \<in> set xs \<Longrightarrow> p_type h = PT_LOAD \<Longrightarrow>
   foldl (\<lambda>base i. if p_type i = PT_LOAD \<and> p_vaddr i \<le> base then p_vaddr i else base) b xs \<le> p_vaddr h"
proof (induction xs arbitrary: b)
  case Nil then show ?case by simp
next
  case (Cons x xs)
  show ?case
  proof (cases "h = x")
    case True
    have "foldl (\<lambda>base i. if p_type i = PT_LOAD \<and> p_vaddr i \<le> base then p_vaddr i else base)
            (if p_type x = PT_LOAD \<and> p_vaddr x \<le> b then p_vaddr x else b) xs
          \<le> (if p_type x = PT_LOAD \<and> p_vaddr x \<le> b then p_vaddr x else b)"
      by (rule getBase_fold_le)
    also have "\<dots> \<le> p_vaddr h" using True Cons.prems by auto
    finally show ?thesis by simp
  next
    case False
    with Cons show ?thesis by simp
  qed
qed

lemma getBase_fold_attained:
  "foldl (\<lambda>base i. if p_type i = PT_LOAD \<and> p_vaddr i \<le> base then p_vaddr i else base) b xs = b \<or>
   (\<exists>h \<in> set xs. p_type h = PT_LOAD \<and>
      p_vaddr h = foldl (\<lambda>base i. if p_type i = PT_LOAD \<and> p_vaddr i \<le> base then p_vaddr i else base) b xs)"
proof (induction xs arbitrary: b)
  case Nil then show ?case by simp
next
  case (Cons x xs)
  from Cons.IH [of "if p_type x = PT_LOAD \<and> p_vaddr x \<le> b then p_vaddr x else b"]
  show ?case by (auto split: if_splits)
qed

text \<open>\<open>getBase\<close> is the least address of a loadable segment, when there is one.\<close>

lemma getBase_minimum:
  assumes "h \<in> set (programHeaders obj)" and "p_type h = PT_LOAD"
    and "\<forall>g \<in> set (programHeaders obj). p_type g = PT_LOAD \<longrightarrow> p_vaddr h \<le> p_vaddr g"
  shows "getBase obj = p_vaddr h"
proof -
  let ?b = "getBase obj"
  have le: "?b \<le> p_vaddr h"
    unfolding getBase_def getSegments_def using assms(1,2) by (rule getBase_fold_lower)
  have "?b = - 1 \<or> (\<exists>g \<in> set (programHeaders obj). p_type g = PT_LOAD \<and> p_vaddr g = ?b)"
    unfolding getBase_def getSegments_def by (rule getBase_fold_attained)
  then show ?thesis
  proof
    assume "?b = - 1"
    with le have "p_vaddr h = - 1" by (metis word_order.extremum_unique)
    with \<open>?b = - 1\<close> show ?thesis by simp
  next
    assume "\<exists>g \<in> set (programHeaders obj). p_type g = PT_LOAD \<and> p_vaddr g = ?b"
    then obtain g where "g \<in> set (programHeaders obj)" "p_type g = PT_LOAD" "p_vaddr g = ?b" by blast
    with assms(3) have "p_vaddr h \<le> ?b" by auto
    with le show ?thesis by simp
  qed
qed

text \<open>
  C4, as the claim states it, fails for an image without a loadable segment: \<open>init\<close>
  accepts a header with \<open>e_phnum = 0\<close>, \<open>getBase\<close> is then the largest offset, and
  no header covers it.
\<close>

theorem base_not_covered_without_segments:
  "init plainReader = Inr plainObject \<and>
   findHeaderForAddress plainObject (getBase plainObject) = None"
  by (simp add: init_def plainObject_def plainReader_def imageReader_def plainHeader_def
      lift_read_def SHN_UNDEF_def findHeaderForAddress_def)

text \<open>
  C4, amended. When a loadable segment of least \<open>p_vaddr\<close> has a range that is not
  empty and does not wrap around (\<open>p_vaddr < p_vaddr + p_memsz\<close> in 64-bit arithmetic),
  \<open>getBase\<close> is that least address and \<open>findHeaderForAddress\<close> finds a loadable
  segment whose half-open range covers it.
\<close>

theorem base_covered:
  assumes "h \<in> set (programHeaders obj)" and "p_type h = PT_LOAD"
    and "\<forall>g \<in> set (programHeaders obj). p_type g = PT_LOAD \<longrightarrow> p_vaddr h \<le> p_vaddr g"
    and "p_vaddr h < p_vaddr h + p_memsz h"
  shows "getBase obj = p_vaddr h \<and>
         (\<exists>g. findHeaderForAddress obj (getBase obj) = Some g \<and> g \<in> set (programHeaders obj) \<and>
              p_type g = PT_LOAD \<and> p_vaddr g \<le> getBase obj \<and> getBase obj < p_vaddr g + p_memsz g)"
proof -
  have b: "getBase obj = p_vaddr h" using assms(1-3) by (rule getBase_minimum)
  let ?P = "\<lambda>hdr. p_vaddr hdr \<le> p_vaddr h \<and> p_vaddr hdr + p_memsz hdr > p_vaddr h \<and> p_type hdr = PT_LOAD"
  have "?P h" using assms(2,4) by simp
  with assms(1) have "find ?P (programHeaders obj) \<noteq> None"
    by (auto simp: find_None_iff)
  then obtain g where g: "find ?P (programHeaders obj) = Some g" by blast
  then have "?P g" "g \<in> set (programHeaders obj)"
    by (auto simp: find_Some_iff)
  with g b show ?thesis by (simp add: findHeaderForAddress_def)
qed

theorem base_covered_witness:
  "init (io loadObject) = Inr loadObject \<and>
   getBase loadObject = 0x400000 \<and>
   findHeaderForAddress loadObject (getBase loadObject) = Some loadSegment"
proof -
  have h1: "loadSegment \<in> set (programHeaders loadObject)"
    by (simp add: loadObject_def)
  have h2: "p_type loadSegment = PT_LOAD"
    by (simp add: loadSegment_def PT_LOAD_def)
  have h3: "\<forall>g \<in> set (programHeaders loadObject). p_type g = PT_LOAD \<longrightarrow> p_vaddr loadSegment \<le> p_vaddr g"
    by (simp add: loadObject_def)
  have h4: "p_vaddr loadSegment < p_vaddr loadSegment + p_memsz loadSegment"
    by (simp add: loadSegment_def)
  have i: "init (io loadObject) = Inr loadObject"
    by (simp add: init_def loadObject_def imageReader_def plainHeader_def lift_read_def SHN_UNDEF_def)
  from base_covered [OF h1 h2 h3 h4] i show ?thesis
    by (auto simp: loadObject_def loadSegment_def)
qed

subsection \<open>The debug companion\<close>

lemma readHeaders_numeral:
  "readHeaders rd off stride (numeral k) =
     (case lift_read (rd off) of Inl e \<Rightarrow> Inl e | Inr h \<Rightarrow>
      (case readHeaders rd (off + stride) stride (pred_numeral k) of Inl e \<Rightarrow> Inl e
       | Inr hs \<Rightarrow> Inr (h # hs)))"
  by (simp add: numeral_eq_Suc)

text \<open>
  C5. The image read by \<open>debuglinkReader\<close> has a \<^verbatim>\<open>.gnu_debuglink\<close> section of type
  \<open>SHT_PROGBITS\<close> whose content names \<^verbatim>\<open>prog.debug\<close>; \<open>getDebug\<close> yields no
  companion for it, and leaves \<open>debugLoaded\<close> false, whatever files exist.
\<close>

theorem getDebug_ignores_debuglink:
  "case init debuglinkReader of
     Inl e \<Rightarrow> False
   | Inr obj \<Rightarrow>
       snd (getSection obj ''.gnu_debuglink'' SHT_PROGBITS) = Some debuglinkSection \<and>
       readString (io obj) (sh_offset debuglinkSection) = Some ''prog.debug'' \<and>
       getDebug obj = None \<and> \<not> debugLoaded obj"
  by (simp add: init_def debuglinkReader_def imageReader_def plainHeader_def lift_read_def
      SHN_UNDEF_def at_index_def nullSection_def shstrtabSection_def debuglinkSection_def
      getDebug_def SHT_HASH_def SHT_NULL_def SHT_PROGBITS_def readHeaders_numeral)

theorem getDebug_ignores_debuglink_witness:
  "\<exists>obj. init debuglinkReader = Inr obj \<and>
         snd (getSection obj ''.gnu_debuglink'' SHT_PROGBITS) \<noteq> None \<and> getDebug obj = None"
  using getDebug_ignores_debuglink by (cases "init debuglinkReader") auto

section \<open>Properties of the scanner\<close>

subsection \<open>The glob matcher\<close>

lemma globstar_nul:
  "globstar [CHR 0x00] (x # after) = (if CHR 0x00 \<in> set after then Inr 1 else Inl OutOfBounds)"
proof (induction after arbitrary: x)
  case Nil
  show ?case by simp
next
  case (Cons n after)
  show ?case
  proof (cases "n = CHR 0x00")
    case True
    then show ?thesis by simp
  next
    case False
    then have "globstar [CHR 0x00] (x # n # after) = globstar [CHR 0x00] (n # after)"
      by simp
    with Cons.IH [of n] False show ?thesis by auto
  qed
qed

lemma globmatchR_prefix:
  "CHR ''*'' \<notin> set s \<Longrightarrow> CHR 0x00 \<notin> set s \<Longrightarrow>
   globmatchR (s @ rest) (s @ nm) = globmatchR rest nm"
  by (induction s) auto

text \<open>
  C10. For a string \<open>s\<close> without a star, matching \<open>s\<close> against the pattern
  \<open>s\<close> followed by a star reads on behind the terminator of the name: the result is
  a match as soon as a zero byte lies behind it, and a read outside the memory otherwise.
  It is never the answer "no match".
\<close>

theorem globmatch_trailing_star:
  assumes "CHR ''*'' \<notin> set s" and "CHR 0x00 \<notin> set s"
  shows "globmatch after (s @ ''*'') s = (if CHR 0x00 \<in> set after then Inr 1 else Inl OutOfBounds)"
proof -
  have "globmatch after (s @ ''*'') s = globmatchR (s @ (''*'' @ [CHR 0x00])) (s @ (CHR 0x00 # after))"
    by (simp add: globmatch_def)
  also have "\<dots> = globmatchR (''*'' @ [CHR 0x00]) (CHR 0x00 # after)"
    using assms by (rule globmatchR_prefix)
  also have "\<dots> = globstar [CHR 0x00] (CHR 0x00 # after)"
    by simp
  finally show ?thesis by (simp only: globstar_nul)
qed

theorem globmatch_default_pattern_overrun:
  "globmatch [CHR 0x00] default_pattern ''_ZTV'' = Inr 1"
  using globmatch_trailing_star [of "''_ZTV''" "[CHR 0x00]"]
  by (simp add: default_pattern_def)

text \<open>A name that extends the prefix of the pattern by at least one character matches,
  whatever lies behind its terminator.\<close>

lemma globmatch_extends:
  assumes "CHR ''*'' \<notin> set s" and "CHR 0x00 \<notin> set s" and "t \<noteq> []"
  shows "globmatch after (s @ ''*'') (s @ t) = Inr 1"
proof -
  obtain x t' where t: "t = x # t'" using assms(3) by (cases t) auto
  have "globmatch after (s @ ''*'') (s @ t) = globmatchR (s @ (''*'' @ [CHR 0x00])) (s @ (t @ CHR 0x00 # after))"
    by (simp add: globmatch_def)
  also have "\<dots> = globmatchR (''*'' @ [CHR 0x00]) (t @ CHR 0x00 # after)"
    using assms(1,2) by (rule globmatchR_prefix)
  also have "\<dots> = globstar [CHR 0x00] (x # (t' @ CHR 0x00 # after))"
    by (simp add: t)
  finally show ?thesis by (simp only: globstar_nul) simp
qed


subsection \<open>The bisection and the count of a word\<close>

declare lower_bound.simps [simp del]

lemma lower_bound_partition:
  assumes "first + len \<le> length xs"
    and "\<forall>i j. i \<le> j \<and> j < length xs \<and> lt_addr (xs ! j) v \<longrightarrow> lt_addr (xs ! i) v"
    and "\<forall>i < first. lt_addr (xs ! i) v"
    and "\<forall>i. first + len \<le> i \<and> i < length xs \<longrightarrow> \<not> lt_addr (xs ! i) v"
  shows "lower_bound xs first len v \<le> first + len \<and>
         (\<forall>i < lower_bound xs first len v. lt_addr (xs ! i) v) \<and>
         (\<forall>i. lower_bound xs first len v \<le> i \<and> i < length xs \<longrightarrow> \<not> lt_addr (xs ! i) v)"
  using assms
proof (induction xs first len v rule: lower_bound.induct)
  case (1 xs first len v)
  show ?case
  proof (cases "len > 0")
    case False
    then have "lower_bound xs first len v = first"
      by (subst lower_bound.simps) simp
    with "1.prems" False show ?thesis by simp
  next
    case True
    define half where "half = len div 2"
    define middle where "middle = first + half"
    have mid: "middle < first + len" "middle < length xs"
      using True "1.prems"(1) by (auto simp: middle_def half_def)
    show ?thesis
    proof (cases "lt_addr (xs ! middle) v")
      case lt: True
      have eq: "lower_bound xs first len v = lower_bound xs (middle + 1) (len - half - 1) v"
        using True lt by (subst lower_bound.simps) (simp add: Let_def middle_def half_def)
      have sum: "middle + 1 + (len - half - 1) = first + len"
        using True by (auto simp: middle_def half_def)
      have below: "\<forall>i < middle + 1. lt_addr (xs ! i) v"
      proof (intro allI impI)
        fix i assume "i < middle + 1"
        then have "i \<le> middle" by simp
        with mid(2) lt "1.prems"(2) show "lt_addr (xs ! i) v" by blast
      qed
      have p1: "middle + 1 + (len - half - 1) \<le> length xs"
        using sum "1.prems"(1) by simp
      have p4: "\<forall>i. middle + 1 + (len - half - 1) \<le> i \<and> i < length xs \<longrightarrow> \<not> lt_addr (xs ! i) v"
        unfolding sum by (rule "1.prems"(4))
      note IH = "1.IH"(1) [OF True half_def middle_def lt p1 "1.prems"(2) below p4]
      show ?thesis unfolding eq using IH unfolding sum .
    next
      case nlt: False
      have eq: "lower_bound xs first len v = lower_bound xs first half v"
        using True nlt by (subst lower_bound.simps) (simp add: Let_def middle_def half_def)
      have above: "\<forall>i. first + half \<le> i \<and> i < length xs \<longrightarrow> \<not> lt_addr (xs ! i) v"
      proof (intro allI impI)
        fix i assume "first + half \<le> i \<and> i < length xs"
        then have "middle \<le> i" "i < length xs" by (simp_all add: middle_def)
        with nlt "1.prems"(2) show "\<not> lt_addr (xs ! i) v" by blast
      qed
      have le: "first + half \<le> length xs" using mid(2) by (simp add: middle_def)
      note IH = "1.IH"(2) [OF True half_def middle_def nlt le "1.prems"(2,3) above]
      have "first + half \<le> first + len" by (simp add: half_def)
      with IH show ?thesis unfolding eq by (meson order_trans)
    qed
  qed
qed

lemma last_filter_upt_aux:
  "filter P [0 ..< n] \<noteq> [] \<Longrightarrow>
   last (filter P [0 ..< n]) < n \<and> P (last (filter P [0 ..< n])) \<and>
   (\<forall>j. last (filter P [0 ..< n]) < j \<and> j < n \<longrightarrow> \<not> P j)"
proof (induction n)
  case 0
  then show ?case by simp
next
  case (Suc n)
  show ?case
  proof (cases "P n")
    case True
    then have "last (filter P [0 ..< Suc n]) = n" by simp
    with True show ?thesis by auto
  next
    case False
    then have eq: "filter P [0 ..< Suc n] = filter P [0 ..< n]" by simp
    with Suc.prems have "filter P [0 ..< n] \<noteq> []" by simp
    from Suc.IH [OF this]
    have l: "last (filter P [0 ..< n]) < n" and p: "P (last (filter P [0 ..< n]))"
      and g: "\<forall>j. last (filter P [0 ..< n]) < j \<and> j < n \<longrightarrow> \<not> P j"
      by blast+
    have "\<not> P j" if "last (filter P [0 ..< n]) < j \<and> j < Suc n" for j
    proof (cases "j = n")
      case True
      with False show ?thesis by simp
    next
      case False
      with that have "j < n" by simp
      with that g show ?thesis by blast
    qed
    then have g': "\<forall>j. last (filter P [0 ..< n]) < j \<and> j < Suc n \<longrightarrow> \<not> P j"
      by blast
    from l have "last (filter P [0 ..< n]) < Suc n" by simp
    with p g' show ?thesis unfolding eq by blast
  qed
qed

lemma spec_candidate_Some:
  assumes "spec_candidate listed w = Some c"
  shows "c < length listed \<and> memaddr (listed ! c) \<le> w \<and>
   (\<forall>j. c < j \<and> j < length listed \<longrightarrow> \<not> memaddr (listed ! j) \<le> w)"
proof -
  let ?f = "filter (\<lambda>i. memaddr (listed ! i) \<le> w) [0 ..< length listed]"
  from assms have ne: "?f \<noteq> []" and c: "c = last ?f"
    unfolding spec_candidate_def by (simp_all split: list.splits)
  from last_filter_upt_aux [OF ne] show ?thesis unfolding c by blast
qed

lemma spec_candidate_None:
  assumes "spec_candidate listed w = None"
  shows "\<forall>i < length listed. \<not> memaddr (listed ! i) \<le> w"
proof -
  from assms have "filter (\<lambda>i. memaddr (listed ! i) \<le> w) [0 ..< length listed] = []"
    unfolding spec_candidate_def by (simp split: list.splits)
  then show ?thesis by (simp add: filter_empty_conv)
qed

text \<open>
  C6, as the claim states it, fails for a symbol that lies inside another: the greatest
  entry of the address-sorted list with address at most the word 0x1028 is \<open>inner\<close>,
  which contains the word, but the bisection compares end addresses, lands on
  \<open>outer\<close> and increments that counter.
\<close>

theorem nested_symbol_counted_for_outer:
  "sorted (map memaddr nestedListed) \<and>
   fst (scanWord False False 0 0 0x7000 0 0x1028 (nestedListed, [])) =
     nestedListed[0 := (nestedListed ! 0)\<lparr> count := 1 \<rparr>] \<and>
   spec_countWord nestedListed 0x1028 = nestedListed[1 := (nestedListed ! 1)\<lparr> count := 1 \<rparr>] \<and>
   nestedListed[0 := (nestedListed ! 0)\<lparr> count := 1 \<rparr>] \<noteq>
     nestedListed[1 := (nestedListed ! 1)\<lparr> count := 1 \<rparr>]"
  by (simp add: nestedListed_def listedSymbol_def memaddr_def scanWord_def lower_bound.simps
      lt_addr_def spec_countWord_def spec_candidate_def Let_def)

text \<open>
  At the first address of a table that follows another one directly, the bisection
  lands on the preceding table, whose end address equals the word, and nothing is
  counted.
\<close>

lemma adjacent_boundary_missed:
  "fst (scanWord False False 0 0 0x7000 0 0x1040 (adjacentListed, [])) = adjacentListed \<and>
   spec_countWord adjacentListed 0x1040 = adjacentListed[1 := (adjacentListed ! 1)\<lparr> count := 1 \<rparr>]"
  by (simp add: adjacentListed_def listedSymbol_def memaddr_def scanWord_def lower_bound.simps
      lt_addr_def spec_countWord_def spec_candidate_def Let_def)

text \<open>
  C6, amended. When the ranges of the listed symbols do not wrap around and do not
  overlap (each ends at or before the address of every later entry), and the word is
  not the end address of an entry, the counting step of the scan does what the spec
  says: the hit goes to the greatest entry with address at most the word, only when
  that entry's address + size is above the word, and only that entry's counter is
  incremented.
\<close>

theorem count_hit_matches_spec:
  assumes nowrap: "\<forall>i < length listed. memaddr (listed ! i) \<le> memaddr (listed ! i) + st_size (lsym (listed ! i))"
    and disjoint: "\<forall>i j. i < j \<and> j < length listed \<longrightarrow>
        memaddr (listed ! i) + st_size (lsym (listed ! i)) \<le> memaddr (listed ! j)"
    and notend: "\<forall>i < length listed. memaddr (listed ! i) + st_size (lsym (listed ! i)) \<noteq> w"
  shows "fst (scanWord False showaddrs minval maxval loc i w (listed, out)) = spec_countWord listed w"
proof -
  let ?n = "length listed"
  let ?a = "\<lambda>k. memaddr (listed ! k)"
  let ?e = "\<lambda>k. memaddr (listed ! k) + st_size (lsym (listed ! k))"
  define r where "r = lower_bound listed 0 ?n w"
  have amono: "?a j \<le> ?a k" if "j \<le> k" "k < ?n" for j k
  proof (cases "j = k")
    case True then show ?thesis by simp
  next
    case False
    with that have "j < k" by simp
    with that disjoint have "?e j \<le> ?a k" by blast
    moreover have "?a j \<le> ?e j" using nowrap that by simp
    ultimately show ?thesis by (rule order_trans [rotated])
  qed
  have emono: "?e j \<le> ?e k" if "j \<le> k" "k < ?n" for j k
  proof (cases "j = k")
    case True then show ?thesis by simp
  next
    case False
    with that have "j < k" by simp
    with that disjoint have "?e j \<le> ?a k" by blast
    moreover have "?a k \<le> ?e k" using nowrap that by simp
    ultimately show ?thesis by (rule order_trans)
  qed
  have part: "\<forall>j k. j \<le> k \<and> k < ?n \<and> lt_addr (listed ! k) w \<longrightarrow> lt_addr (listed ! j) w"
    unfolding lt_addr_def using emono by (meson order_le_less_trans)
  have "r \<le> 0 + ?n \<and> (\<forall>k < r. lt_addr (listed ! k) w) \<and>
        (\<forall>k. r \<le> k \<and> k < ?n \<longrightarrow> \<not> lt_addr (listed ! k) w)"
    unfolding r_def
  proof (rule lower_bound_partition)
    show "0 + ?n \<le> ?n" by simp
    show "\<forall>j k. j \<le> k \<and> k < ?n \<and> lt_addr (listed ! k) w \<longrightarrow> lt_addr (listed ! j) w"
      by (rule part)
    show "\<forall>k < 0. lt_addr (listed ! k) w" by simp
    show "\<forall>k. 0 + ?n \<le> k \<and> k < ?n \<longrightarrow> \<not> lt_addr (listed ! k) w" by auto
  qed
  then have rn: "r \<le> ?n" and below: "\<And>k. k < r \<Longrightarrow> ?e k < w"
    and above: "\<And>k. r \<le> k \<Longrightarrow> k < ?n \<Longrightarrow> \<not> ?e k < w"
    unfolding lt_addr_def by simp_all
  have above': "w < ?e k" if "r \<le> k" "k < ?n" for k
    using above [OF that] notend that(2) by (metis linorder_neqE)
  let ?bump = "\<lambda>k. listed[k := (listed ! k)\<lparr> count := count (listed ! k) + 1 \<rparr>]"
  have code: "fst (scanWord False showaddrs minval maxval loc i w (listed, out)) =
        (if r \<noteq> ?n \<and> ?a r \<le> w \<and> w < ?e r then ?bump r else listed)"
    by (simp add: scanWord_def Let_def r_def)
  show ?thesis
  proof (cases "r \<noteq> ?n \<and> ?a r \<le> w")
    case True
    then have r: "r < ?n" "?a r \<le> w" using rn by simp_all
    have er: "w < ?e r" using above' [of r] r by simp
    have greatest: "\<not> ?a j \<le> w" if "r < j" "j < ?n" for j
    proof -
      from that disjoint have "?e r \<le> ?a j" by blast
      with er show ?thesis by simp
    qed
    have "spec_candidate listed w = Some r"
    proof (cases "spec_candidate listed w")
      case None
      from spec_candidate_None [OF this] r show ?thesis by blast
    next
      case (Some c)
      from spec_candidate_Some [OF this]
      have c: "c < ?n" "?a c \<le> w" "\<forall>j. c < j \<and> j < ?n \<longrightarrow> \<not> ?a j \<le> w" by blast+
      have "\<not> c < r" using c(3) r by blast
      moreover have "\<not> r < c" using greatest c(1,2) by blast
      ultimately have "c = r" by simp
      with Some show ?thesis by simp
    qed
    with er r show ?thesis unfolding code by (simp add: spec_countWord_def)
  next
    case False
    then have c1: "fst (scanWord False showaddrs minval maxval loc i w (listed, out)) = listed"
      unfolding code by auto
    have "spec_countWord listed w = listed"
    proof (cases "spec_candidate listed w")
      case None
      then show ?thesis by (simp add: spec_countWord_def)
    next
      case (Some c)
      from spec_candidate_Some [OF this]
      have c: "c < ?n" "?a c \<le> w" by blast+
      have "c < r"
      proof (rule ccontr)
        assume "\<not> c < r"
        then have "r \<le> c" by simp
        with c(1) have "r < ?n" by simp
        moreover have "?a r \<le> ?a c" using \<open>r \<le> c\<close> c(1) by (rule amono)
        ultimately show False using False c(2) by auto
      qed
      then have "?e c < w" by (rule below)
      then have "\<not> w < ?e c" by simp
      with Some show ?thesis by (simp add: spec_countWord_def)
    qed
    with c1 show ?thesis by simp
  qed
qed

theorem count_hit_matches_spec_witness:
  "fst (scanWord False False 0 0 0x7000 0 0x1050 (adjacentListed, [])) =
     adjacentListed[1 := (adjacentListed ! 1)\<lparr> count := 1 \<rparr>]"
proof -
  have h1: "\<forall>i < length adjacentListed. memaddr (adjacentListed ! i) \<le>
              memaddr (adjacentListed ! i) + st_size (lsym (adjacentListed ! i))"
    by (simp add: adjacentListed_def listedSymbol_def memaddr_def less_Suc_eq)
  have h2: "\<forall>i j. i < j \<and> j < length adjacentListed \<longrightarrow>
        memaddr (adjacentListed ! i) + st_size (lsym (adjacentListed ! i)) \<le> memaddr (adjacentListed ! j)"
    by (auto simp: adjacentListed_def listedSymbol_def memaddr_def less_Suc_eq)
  have h3: "\<forall>i < length adjacentListed.
        memaddr (adjacentListed ! i) + st_size (lsym (adjacentListed ! i)) \<noteq> 0x1050"
    by (simp add: adjacentListed_def listedSymbol_def memaddr_def less_Suc_eq)
  have "spec_countWord adjacentListed 0x1050 = adjacentListed[1 := (adjacentListed ! 1)\<lparr> count := 1 \<rparr>]"
    by (simp add: adjacentListed_def listedSymbol_def memaddr_def spec_countWord_def spec_candidate_def)
  with count_hit_matches_spec [OF h1 h2 h3] show ?thesis by simp
qed

subsection \<open>The reference search\<close>

lemma scanPage_findRef:
  "scanPage True showaddrs minval maxval loc page (listed, out) =
     (listed, out @ replicate (length (filter (\<lambda>p. minval \<le> p \<and> p < maxval \<and> p mod 4 = 0) page))
                              (RefLine loc))"
proof (induction page rule: rev_induct)
  case Nil
  show ?case by (simp add: scanPage_def)
next
  case (snoc x xs)
  have "foldl (\<lambda>s i. scanWord True showaddrs minval maxval loc i ((xs @ [x]) ! i) s) (listed, out) [0 ..< length xs]
      = foldl (\<lambda>s i. scanWord True showaddrs minval maxval loc i (xs ! i) s) (listed, out) [0 ..< length xs]"
    by (rule foldl_cong) (simp_all add: nth_append)
  then have "scanPage True showaddrs minval maxval loc (xs @ [x]) (listed, out) =
      scanWord True showaddrs minval maxval loc (length xs) x
        (scanPage True showaddrs minval maxval loc xs (listed, out))"
    by (simp add: scanPage_def)
  then show ?case
    unfolding snoc.IH by (simp add: scanWord_def replicate_append_same)
qed

text \<open>
  C7. In the reference search every line printed for a page is the address \<open>loc\<close>
  at which the page was read, once for each matching word, whatever the index of the
  word in the page: the address \<open>loc + 8 * i\<close> of the word itself is never printed.
\<close>

theorem refs_print_page_address:
  "snd (scanPage True showaddrs minval maxval loc page (listed, [])) =
     replicate (length (filter (\<lambda>p. minval \<le> p \<and> p < maxval \<and> p mod 4 = 0) page)) (RefLine loc)"
  by (simp add: scanPage_findRef)

theorem refs_print_page_address_witness:
  "snd (scanPage True False 0x1000 0x2000 0x10000 refPage ([], [])) =
     [RefLine 0x10000, RefLine 0x10000, RefLine 0x10000]"
  using refs_print_page_address [of False "0x1000" "0x2000" "0x10000" refPage "[]"]
  by (simp add: refPage_def)

section \<open>Properties of the lookups\<close>

subsection \<open>Lookup by address\<close>

text \<open>A table in which no entry is an exact match is walked to its end; the first exact
  match ends the walk.\<close>

lemma symLoop_no_exact:
  assumes "\<forall>j < length offs. \<exists>c cn. deref rdr (offs ! j) stroff = Inr (c, cn) \<and> \<not> exact obj addr ty c"
  shows "\<exists>st'. symLoop obj addr ty rdr stroff offs st = Inr (False, st')"
  using assms
proof (induction offs arbitrary: st)
  case Nil
  show ?case by (rule exI [of _ st]) simp
next
  case (Cons off offs)
  obtain lowest symv nm where st: "st = (lowest, symv, nm)" by (cases st) auto
  from Cons.prems have "\<exists>c cn. deref rdr ((off # offs) ! 0) stroff = Inr (c, cn) \<and> \<not> exact obj addr ty c"
    by blast
  then obtain c cn where c: "deref rdr off stroff = Inr (c, cn)" "\<not> exact obj addr ty c"
    by auto
  have rest: "\<forall>j < length offs. \<exists>c cn. deref rdr (offs ! j) stroff = Inr (c, cn) \<and> \<not> exact obj addr ty c"
  proof (intro allI impI)
    fix j assume "j < length offs"
    then have "Suc j < length (off # offs)" by simp
    with Cons.prems have "\<exists>c cn. deref rdr ((off # offs) ! Suc j) stroff = Inr (c, cn) \<and> \<not> exact obj addr ty c"
      by blast
    then show "\<exists>c cn. deref rdr (offs ! j) stroff = Inr (c, cn) \<and> \<not> exact obj addr ty c" by simp
  qed
  have "\<exists>st1. symLoop obj addr ty rdr stroff (off # offs) (lowest, symv, nm) =
          symLoop obj addr ty rdr stroff offs st1"
    using c by (auto simp: exact_def eligible_def)
  then obtain st1 where "symLoop obj addr ty rdr stroff (off # offs) st = symLoop obj addr ty rdr stroff offs st1"
    unfolding st by blast
  with Cons.IH [OF rest, of st1] show ?case by simp
qed

lemma symLoop_exact:
  assumes "i < length offs" and "deref rdr (offs ! i) stroff = Inr (s, nm)" and "exact obj addr ty s"
    and "\<forall>j < i. \<exists>c cn. deref rdr (offs ! j) stroff = Inr (c, cn) \<and> \<not> exact obj addr ty c"
  shows "\<exists>lowest. symLoop obj addr ty rdr stroff offs st = Inr (True, lowest, s, nm)"
  using assms
proof (induction offs arbitrary: i st)
  case Nil
  then show ?case by simp
next
  case (Cons off offs)
  obtain lowest symv nm0 where st: "st = (lowest, symv, nm0)" by (cases st) auto
  show ?case
  proof (cases i)
    case 0
    with Cons.prems have "deref rdr off stroff = Inr (s, nm)" "exact obj addr ty s" by simp_all
    then show ?thesis unfolding st by (auto simp: exact_def eligible_def)
  next
    case (Suc k)
    with Cons.prems(4) have "\<exists>c cn. deref rdr ((off # offs) ! 0) stroff = Inr (c, cn) \<and> \<not> exact obj addr ty c"
      by blast
    then obtain c cn where c: "deref rdr off stroff = Inr (c, cn)" "\<not> exact obj addr ty c"
      by auto
    have "\<exists>st1. symLoop obj addr ty rdr stroff (off # offs) (lowest, symv, nm0) =
            symLoop obj addr ty rdr stroff offs st1"
      using c by (auto simp: exact_def eligible_def)
    then obtain st1 where eq: "symLoop obj addr ty rdr stroff (off # offs) st = symLoop obj addr ty rdr stroff offs st1"
      unfolding st by blast
    have k: "k < length offs" "deref rdr (offs ! k) stroff = Inr (s, nm)"
      using Cons.prems(1,2) Suc by simp_all
    have before: "\<forall>j < k. \<exists>c cn. deref rdr (offs ! j) stroff = Inr (c, cn) \<and> \<not> exact obj addr ty c"
    proof (intro allI impI)
      fix j assume "j < k"
      then have "Suc j < i" using Suc by simp
      with Cons.prems(4) have "\<exists>c cn. deref rdr ((off # offs) ! Suc j) stroff = Inr (c, cn) \<and> \<not> exact obj addr ty c"
        by blast
      then show "\<exists>c cn. deref rdr (offs ! j) stroff = Inr (c, cn) \<and> \<not> exact obj addr ty c" by simp
    qed
    from Cons.IH [OF k Cons.prems(3) before, of st1] eq show ?thesis by simp
  qed
qed

lemma init_aliasReader: "init aliasReader = Inr aliasObject"
  by (simp add: init_def aliasReader_def aliasObject_def aliasHeader_def imageReader_def
      plainHeader_def lift_read_def SHN_UNDEF_def at_index_def readHeaders_numeral
      nullSection_def shstrtabSection_def textSection_def symtabSection_def strtabSection_def
      SHT_HASH_def SHT_NULL_def getDebug_def)

lemma candidates_aliasObject:
  "candidates aliasObject = [Inr (nullSym, ''''), Inr (fooSym, ''foo''), Inr (barSym, ''bar'')]"
  by (simp add: candidates_def sectionNames_def entriesOf_def aliasObject_def getDebug_def
      SHT_NULL_def SHT_NOBITS_def symtabSection_def strtabSection_def SymbolSection_def getLink_def
      at_index_def sizeof_Sym_def upt_rec deref_def aliasReader_def imageReader_def lift_read_def
      nullSym_def fooSym_def barSym_def)

text \<open>A symbol of non-zero size in an allocated section, whose range does not wrap
  around, is an exact match for each address of its range and its own type.\<close>

lemma exact_within:
  assumes "st_size s \<noteq> 0" and "unat (st_shndx s) < length (sectionHeaders obj)"
    and "sh_flags (sectionHeaders obj ! unat (st_shndx s)) AND SHF_ALLOC \<noteq> 0"
    and "unat (st_value s) + unat (st_size s) < 2 ^ 64" and "k < st_size s"
  shows "exact obj (st_value s + k) (ELF_ST_TYPE (st_info s)) s"
proof -
  have kn: "unat k < unat (st_size s)" using assms(5) by (simp add: word_less_nat_alt)
  have a1: "unat (st_value s + k) = unat (st_value s) + unat k"
    using assms(4) kn by (subst unat_add_lem [THEN iffD1]) simp_all
  have a2: "unat (st_size s + st_value s) = unat (st_size s) + unat (st_value s)"
    using assms(4) by (subst unat_add_lem [THEN iffD1]) simp_all
  have "st_value s \<le> st_value s + k"
    by (simp add: word_le_nat_alt a1)
  moreover have "st_value s + k < st_size s + st_value s"
    using kn by (simp add: word_less_nat_alt a1 a2)
  ultimately show ?thesis
    using assms(1-3) by (simp add: exact_def eligible_def)
qed

lemma sectionLoop_exact:
  assumes "i < length (concat (map (entriesOf obj) sns))"
    and "concat (map (entriesOf obj) sns) ! i = Inr (s, nm)"
    and "exact obj addr ty s"
    and "\<forall>j < i. \<exists>c cn. concat (map (entriesOf obj) sns) ! j = Inr (c, cn) \<and> \<not> exact obj addr ty c"
  shows "sectionLoop obj addr ty sns st = Inr (True, s, nm)"
  using assms
proof (induction sns arbitrary: i st)
  case Nil
  then show ?case by simp
next
  case (Cons sn sns)
  define sec where "sec = getSection obj sn SHT_NULL"
  define es where "es = entriesOf obj sn"
  define rest where "rest = concat (map (entriesOf obj) sns)"
  have cat: "concat (map (entriesOf obj) (sn # sns)) = es @ rest"
    by (simp add: es_def rest_def)
  note prems = Cons.prems [unfolded cat]
  have skip: "sectionLoop obj addr ty (sn # sns) st = Inr (True, s, nm)"
    if "es = []" "sectionLoop obj addr ty (sn # sns) st = sectionLoop obj addr ty sns st"
  proof -
    from prems that(1) have "i < length rest" "rest ! i = Inr (s, nm)"
      "\<forall>j < i. \<exists>c cn. rest ! j = Inr (c, cn) \<and> \<not> exact obj addr ty c"
      by simp_all
    from Cons.IH [OF this(1,2) [unfolded rest_def] Cons.prems(3) this(3) [unfolded rest_def]] that(2)
    show ?thesis by simp
  qed
  consider (none) "snd sec = None"
    | (nobits) shdr where "snd sec = Some shdr" "sh_type shdr = SHT_NOBITS"
    | (fault) shdr e where "snd sec = Some shdr" "sh_type shdr \<noteq> SHT_NOBITS"
        "SymbolSection (fst sec) shdr = Inl e"
    | (ok) shdr offs stroff where "snd sec = Some shdr" "sh_type shdr \<noteq> SHT_NOBITS"
        "SymbolSection (fst sec) shdr = Inr (offs, stroff)"
  proof (cases "snd sec")
    case None
    then show ?thesis by (rule that(1))
  next
    case (Some shdr)
    show ?thesis
    proof (cases "sh_type shdr = SHT_NOBITS")
      case True
      with Some show ?thesis by (rule that(2))
    next
      case False
      show ?thesis
      proof (cases "SymbolSection (fst sec) shdr")
        case (Inl e)
        with Some False show ?thesis by (rule that(3))
      next
        case (Inr p)
        then have "SymbolSection (fst sec) shdr = Inr (fst p, snd p)" by simp
        with Some False show ?thesis by (rule that(4))
      qed
    qed
  qed
  then show ?case
  proof cases
    case none
    then have "es = []" by (simp add: es_def entriesOf_def sec_def [symmetric] Let_def del: getSection.simps)
    moreover have "sectionLoop obj addr ty (sn # sns) st = sectionLoop obj addr ty sns st"
      using none by (simp add: sec_def [symmetric] Let_def del: getSection.simps)
    ultimately show ?thesis by (rule skip)
  next
    case nobits
    then have "es = []" by (simp add: es_def entriesOf_def sec_def [symmetric] Let_def del: getSection.simps)
    moreover have "sectionLoop obj addr ty (sn # sns) st = sectionLoop obj addr ty sns st"
      using nobits by (simp add: sec_def [symmetric] Let_def del: getSection.simps)
    ultimately show ?thesis by (rule skip)
  next
    case fault
    then have es: "es = [Inl e]" by (simp add: es_def entriesOf_def sec_def [symmetric] Let_def del: getSection.simps)
    show ?thesis
    proof (cases i)
      case 0
      with prems(2) es show ?thesis by simp
    next
      case (Suc k)
      with prems(4) have "\<exists>c cn. (es @ rest) ! 0 = Inr (c, cn) \<and> \<not> exact obj addr ty c" by blast
      with es show ?thesis by simp
    qed
  next
    case ok
    then have es: "es = map (\<lambda>off. deref (io (fst sec)) off stroff) offs"
      by (simp add: es_def entriesOf_def sec_def [symmetric] Let_def del: getSection.simps)
    have step: "sectionLoop obj addr ty (sn # sns) st =
        (case symLoop obj addr ty (io (fst sec)) stroff offs st of Inl e \<Rightarrow> Inl e
         | Inr (returned, st') \<Rightarrow>
             if returned then Inr (True, snd st') else sectionLoop obj addr ty sns st')"
      using ok by (simp add: sec_def [symmetric] Let_def del: getSection.simps)
    show ?thesis
    proof (cases "i < length offs")
      case True
      have d: "deref (io (fst sec)) (offs ! i) stroff = Inr (s, nm)"
        using prems(2) True by (simp add: es nth_append)
      have b: "\<forall>j < i. \<exists>c cn. deref (io (fst sec)) (offs ! j) stroff = Inr (c, cn) \<and> \<not> exact obj addr ty c"
      proof (intro allI impI)
        fix j assume j: "j < i"
        with prems(4) have "\<exists>c cn. (es @ rest) ! j = Inr (c, cn) \<and> \<not> exact obj addr ty c" by blast
        moreover have "(es @ rest) ! j = deref (io (fst sec)) (offs ! j) stroff"
          using j True by (simp add: es nth_append)
        ultimately show "\<exists>c cn. deref (io (fst sec)) (offs ! j) stroff = Inr (c, cn) \<and> \<not> exact obj addr ty c"
          by simp
      qed
      from symLoop_exact [OF True d Cons.prems(3) b, of st]
      obtain lowest where "symLoop obj addr ty (io (fst sec)) stroff offs st = Inr (True, lowest, s, nm)"
        by blast
      then show ?thesis unfolding step by simp
    next
      case False
      have b: "\<forall>j < length offs. \<exists>c cn. deref (io (fst sec)) (offs ! j) stroff = Inr (c, cn) \<and> \<not> exact obj addr ty c"
      proof (intro allI impI)
        fix j assume j: "j < length offs"
        with False have "j < i" by simp
        with prems(4) have "\<exists>c cn. (es @ rest) ! j = Inr (c, cn) \<and> \<not> exact obj addr ty c" by blast
        moreover have "(es @ rest) ! j = deref (io (fst sec)) (offs ! j) stroff"
          using j by (simp add: es nth_append)
        ultimately show "\<exists>c cn. deref (io (fst sec)) (offs ! j) stroff = Inr (c, cn) \<and> \<not> exact obj addr ty c"
          by simp
      qed
      from symLoop_no_exact [OF b, of st]
      obtain st' where st': "symLoop obj addr ty (io (fst sec)) stroff offs st = Inr (False, st')"
        by blast
      have len: "length es = length offs" by (simp add: es)
      have i1: "i - length offs < length rest" using prems(1) False len by simp
      have i2: "rest ! (i - length offs) = Inr (s, nm)"
        using prems(2) False len by (simp add: nth_append)
      have i4: "\<forall>j < i - length offs. \<exists>c cn. rest ! j = Inr (c, cn) \<and> \<not> exact obj addr ty c"
      proof (intro allI impI)
        fix j assume "j < i - length offs"
        then have "j + length offs < i" by simp
        with prems(4) have "\<exists>c cn. (es @ rest) ! (j + length offs) = Inr (c, cn) \<and> \<not> exact obj addr ty c"
          by blast
        then show "\<exists>c cn. rest ! j = Inr (c, cn) \<and> \<not> exact obj addr ty c"
          using len by (simp add: nth_append)
      qed
      from Cons.IH [OF i1 [unfolded rest_def] i2 [unfolded rest_def] Cons.prems(3) i4 [unfolded rest_def], of st']
      show ?thesis unfolding step st' by simp
    qed
  qed
qed

text \<open>
  C2, amended. For a symbol of non-zero size in an allocated section whose range
  \<open>st_value + st_size\<close> does not wrap around, and an offset \<open>k\<close> below its size: if
  every entry that the scan of \<^verbatim>\<open>.symtab\<close> and then \<^verbatim>\<open>.dynsym\<close> meets before
  the symbol can be read and is not itself an exact match for the address, the lookup of
  \<open>st_value + k\<close> with the symbol's type returns the symbol and its name.
\<close>

theorem findSymbolByAddress_returns_symbol:
  assumes "i < length (candidates obj)" and "candidates obj ! i = Inr (s, nm)"
    and "st_size s \<noteq> 0" and "unat (st_shndx s) < length (sectionHeaders obj)"
    and "sh_flags (sectionHeaders obj ! unat (st_shndx s)) AND SHF_ALLOC \<noteq> 0"
    and "unat (st_value s) + unat (st_size s) < 2 ^ 64" and "k < st_size s"
    and "\<forall>j < i. \<exists>c cn. candidates obj ! j = Inr (c, cn) \<and>
           \<not> exact obj (st_value s + k) (ELF_ST_TYPE (st_info s)) c"
  shows "findSymbolByAddress obj (st_value s + k) (ELF_ST_TYPE (st_info s)) sym0 nm0 = Inr (True, s, nm)"
proof -
  have ex: "exact obj (st_value s + k) (ELF_ST_TYPE (st_info s)) s"
    using assms(3-7) by (rule exact_within)
  show ?thesis
    unfolding findSymbolByAddress_def
    by (rule sectionLoop_exact [OF assms(1,2) [unfolded candidates_def] ex assms(8) [unfolded candidates_def]])
qed

text \<open>
  C2, as the claim states it, fails when two symbols cover the same address: \<open>barSym\<close>
  has non-zero size and lies in the allocated section \<^verbatim>\<open>.text\<close>, but the lookup
  of its address with its type returns \<open>fooSym\<close>, which stands before it in the
  table.
\<close>

theorem alias_returned_for_symbol:
  "init aliasReader = Inr aliasObject \<and>
   candidates aliasObject ! 2 = Inr (barSym, ''bar'') \<and>
   st_size barSym \<noteq> 0 \<and>
   sh_flags (sectionHeaders aliasObject ! unat (st_shndx barSym)) AND SHF_ALLOC \<noteq> 0 \<and>
   findSymbolByAddress aliasObject (st_value barSym + 0) (ELF_ST_TYPE (st_info barSym)) nullSym [] =
     Inr (True, fooSym, ''foo'') \<and>
   fooSym \<noteq> barSym"
proof -
  have "findSymbolByAddress aliasObject (st_value barSym + 0) (ELF_ST_TYPE (st_info barSym)) nullSym [] =
     Inr (True, fooSym, ''foo'')"
    by (simp add: findSymbolByAddress_def sectionNames_def aliasObject_def getDebug_def
      SHT_NULL_def SHT_NOBITS_def symtabSection_def strtabSection_def SymbolSection_def getLink_def
      at_index_def sizeof_Sym_def upt_rec deref_def aliasReader_def imageReader_def lift_read_def
      nullSym_def fooSym_def barSym_def eligible_def nullSection_def textSection_def
      SHF_ALLOC_def STT_NOTYPE_def ELF_ST_TYPE_def)
  moreover have "sh_flags (sectionHeaders aliasObject ! unat (st_shndx barSym)) AND SHF_ALLOC \<noteq> 0"
    by (simp add: aliasObject_def barSym_def textSection_def SHF_ALLOC_def)
  ultimately show ?thesis
    using init_aliasReader candidates_aliasObject by (simp add: barSym_def fooSym_def)
qed

theorem findSymbolByAddress_returns_symbol_witness:
  "findSymbolByAddress aliasObject (st_value fooSym + 5) (ELF_ST_TYPE (st_info fooSym)) nullSym [] =
     Inr (True, fooSym, ''foo'')"
proof -
  have h1: "1 < length (candidates aliasObject)" by (simp add: candidates_aliasObject)
  have h2: "candidates aliasObject ! 1 = Inr (fooSym, ''foo'')" by (simp add: candidates_aliasObject)
  have h3: "st_size fooSym \<noteq> 0" by (simp add: fooSym_def)
  have h4: "unat (st_shndx fooSym) < length (sectionHeaders aliasObject)"
    by (simp add: fooSym_def aliasObject_def)
  have h5: "sh_flags (sectionHeaders aliasObject ! unat (st_shndx fooSym)) AND SHF_ALLOC \<noteq> 0"
    by (simp add: aliasObject_def fooSym_def textSection_def SHF_ALLOC_def)
  have h6: "unat (st_value fooSym) + unat (st_size fooSym) < 2 ^ 64" by (simp add: fooSym_def)
  have h7: "5 < st_size fooSym" by (simp add: fooSym_def)
  have h8: "\<forall>j < 1. \<exists>c cn. candidates aliasObject ! j = Inr (c, cn) \<and>
           \<not> exact aliasObject (st_value fooSym + 5) (ELF_ST_TYPE (st_info fooSym)) c"
  proof -
    have "\<not> exact aliasObject (st_value fooSym + 5) (ELF_ST_TYPE (st_info fooSym)) nullSym"
      by (simp add: exact_def eligible_def nullSym_def aliasObject_def nullSection_def SHF_ALLOC_def)
    then show ?thesis by (simp add: candidates_aliasObject)
  qed
  from findSymbolByAddress_returns_symbol [OF h1 h2 h3 h4 h5 h6 h7 h8] show ?thesis .
qed

subsection \<open>Lookup by name\<close>

lemma init_dynReader: "init (dynReader s1 s2 names) = Inr (dynObject s1 s2 names)"
  by (simp add: init_def dynReader_def dynObject_def dynHeader_def imageReader_def
      plainHeader_def lift_read_def SHN_UNDEF_def at_index_def readHeaders_numeral
      nullSection_def shstrtabSection_def textSection_def dynsymSection_def dynstrSection_def
      hashSection_def SHT_HASH_def SHT_NULL_def getDebug_def ElfSymHash_new_def getLink_def
      sizeof_Word_def hashWords_def dynHash_def)

lemma elf_hash_f: "elf_hash ''f'' = 0x66"
  by (simp add: elf_hash_def elf_hash_step_def Let_def)

text \<open>
  C3, as the claim states it, fails for a name that two entries of \<^verbatim>\<open>.dynsym\<close>
  carry: the chain of the bucket meets index 2 first, the linear scan index 1, and
  the two lookups return different entries.
\<close>

theorem versioned_name_lookups_differ:
  "init (io versionedObject) = Inr versionedObject \<and>
   hash versionedObject = Some dynHash \<and>
   findSymbol (io versionedObject) dynHash nullSym ''f'' = Some (Inr (True, fNew, ''f'')) \<and>
   linearSymSearch (getSection versionedObject ''.dynsym'' SHT_DYNSYM) ''f'' nullSym = Inr (True, fOld) \<and>
   fNew \<noteq> fOld"
proof -
  have "findSymbol (io versionedObject) dynHash nullSym ''f'' = Some (Inr (True, fNew, ''f''))"
    by (simp add: findSymbol_def elf_hash_f dynHash_def buckets_at_def at_index_def hashWords_def
        chainLoop.simps STN_UNDEF_def deref_def versionedObject_def dynObject_def dynReader_def
        imageReader_def lift_read_def dynsymSection_def sizeof_Sym_def fNew_def)
  moreover have "linearSymSearch (getSection versionedObject ''.dynsym'' SHT_DYNSYM) ''f'' nullSym = Inr (True, fOld)"
    by (simp add: linearSymSearch_def versionedObject_def dynObject_def getDebug_def SHT_DYNSYM_def
        SHT_NULL_def dynsymSection_def dynstrSection_def SymbolSection_def getLink_def at_index_def
        sizeof_Sym_def upt_rec deref_def dynReader_def imageReader_def lift_read_def nullSym_def
        fOld_def)
  moreover have "init (io versionedObject) = Inr versionedObject"
    by (simp add: versionedObject_def init_dynReader) (simp add: dynObject_def init_dynReader)
  ultimately show ?thesis
    by (simp add: fNew_def fOld_def) (simp add: versionedObject_def dynObject_def)
qed

lemma linearLoop_first:
  assumes "i < length offs" and "deref rdr (offs ! i) stroff = Inr (s, nm)"
    and "\<forall>j < i. \<exists>c cn. deref rdr (offs ! j) stroff = Inr (c, cn) \<and> cn \<noteq> nm"
  shows "linearLoop rdr stroff nm offs sym0 = Inr (True, s)"
  using assms
proof (induction offs arbitrary: i)
  case Nil
  then show ?case by simp
next
  case (Cons off offs)
  show ?case
  proof (cases i)
    case 0
    with Cons.prems(2) show ?thesis by simp
  next
    case (Suc k)
    with Cons.prems(3) have "\<exists>c cn. deref rdr ((off # offs) ! 0) stroff = Inr (c, cn) \<and> cn \<noteq> nm"
      by blast
    then obtain c cn where c: "deref rdr off stroff = Inr (c, cn)" "cn \<noteq> nm" by auto
    have k: "k < length offs" "deref rdr (offs ! k) stroff = Inr (s, nm)"
      using Cons.prems(1,2) Suc by simp_all
    have before: "\<forall>j < k. \<exists>c cn. deref rdr (offs ! j) stroff = Inr (c, cn) \<and> cn \<noteq> nm"
    proof (intro allI impI)
      fix j assume "j < k"
      then have "Suc j < i" using Suc by simp
      with Cons.prems(3) have "\<exists>c cn. deref rdr ((off # offs) ! Suc j) stroff = Inr (c, cn) \<and> cn \<noteq> nm"
        by blast
      then show "\<exists>c cn. deref rdr (offs ! j) stroff = Inr (c, cn) \<and> cn \<noteq> nm" by simp
    qed
    from Cons.IH [OF k before] c show ?thesis by auto
  qed
qed

lemma chain_offset:
  "sh_offset sec + ucast (i :: Elf_Word) * of_nat sizeof_Sym = sh_offset sec + of_nat (unat i * sizeof_Sym)"
  by simp

lemma chainLoop_reaches:
  assumes "chain_reaches h n fuel i t" and "t \<noteq> STN_UNDEF"
    and "deref rdr (sh_offset (syms h) + of_nat (unat t * sizeof_Sym)) (strings h) = Inr (s, nm)"
    and "\<forall>j < n. j \<noteq> unat t \<longrightarrow>
           (\<exists>c cn. deref rdr (sh_offset (syms h) + of_nat (j * sizeof_Sym)) (strings h) = Inr (c, cn) \<and> cn \<noteq> nm)"
  shows "chainLoop rdr h nm i = Some (Inr (Some (s, nm)))"
proof -
  have step: "chainLoop rdr h nm i =
     (if i = STN_UNDEF then Some (Inr None)
      else
        case deref rdr (sh_offset (syms h) + of_nat (unat i * sizeof_Sym)) (strings h) of
          Inl e \<Rightarrow> Some (Inl e)
        | Inr (candidate, candidateName) \<Rightarrow>
            if candidateName = nm then Some (Inr (Some (candidate, candidateName)))
            else (case chains_at h i of Inl e \<Rightarrow> Some (Inl e)
                  | Inr j \<Rightarrow> chainLoop rdr h nm j))" for i
    by (subst chainLoop.simps) (simp only: chain_offset)
  have at_t: "chainLoop rdr h nm t = Some (Inr (Some (s, nm)))"
    using assms(2,3) by (subst step) simp
  show ?thesis
    using assms(1)
proof (induction fuel arbitrary: i)
  case 0
  then have "i = t" by simp
  with at_t show ?case by simp
next
  case (Suc fuel)
  show ?case
  proof (cases "i = t")
    case True
    with at_t show ?thesis by simp
  next
    case False
    with Suc.prems obtain j where i: "i \<noteq> STN_UNDEF" "unat i < n" "chains_at h i = Inr j"
      and r: "chain_reaches h n fuel j t"
      by (auto split: sum.splits)
    from False have "unat i \<noteq> unat t" by (simp add: word_unat_eq_iff)
    with assms(4) i(2) obtain c cn where
      c: "deref rdr (sh_offset (syms h) + of_nat (unat i * sizeof_Sym)) (strings h) = Inr (c, cn)" "cn \<noteq> nm"
      by blast
    have "chainLoop rdr h nm i = chainLoop rdr h nm j"
      using i c by (subst step) simp
    with Suc.IH [OF r] show ?thesis by simp
  qed
qed
qed

text \<open>
  For a name whose bytes are all below 0x80, \<open>elf_hash\<close> is the hash of the ABI;
  a byte from 0x80 on is sign-extended before it is added, and the two differ.
\<close>

lemma scast_seven_bit:
  assumes "(of_char c :: nat) < 128"
  shows "(scast (of_char c :: 8 word) :: 32 word) = of_nat (of_char c)"
proof -
  define n where "n = (of_char c :: nat)"
  have w: "(of_char c :: 8 word) = of_nat n"
    by (simp add: n_def of_nat_of_char)
  have "sint (of_nat n :: 8 word) = int n"
    using assms unfolding n_def [symmetric]
    by (simp add: signed_of_nat signed_take_bit_int_eq_self)
  then have "(scast (of_nat n :: 8 word) :: 32 word) = word_of_int (int n)"
    by (simp add: scast_eq)
  then show ?thesis unfolding w by (simp add: n_def)
qed

lemma elf_hash_step_seven_bit:
  "(of_char c :: nat) < 128 \<Longrightarrow> elf_hash_step h c = spec_sysv_hash_step h c"
  by (simp add: elf_hash_step_def spec_sysv_hash_step_def scast_seven_bit)

lemma elf_hash_seven_bit_aux:
  "\<forall>c \<in> set nm. (of_char c :: nat) < 128 \<Longrightarrow>
   foldl elf_hash_step h nm = foldl spec_sysv_hash_step h nm"
  by (induction nm arbitrary: h) (simp_all add: elf_hash_step_seven_bit)

lemma elf_hash_seven_bit:
  "\<forall>c \<in> set nm. (of_char c :: nat) < 128 \<Longrightarrow> elf_hash nm = spec_sysv_hash nm"
  by (simp add: elf_hash_def spec_sysv_hash_def elf_hash_seven_bit_aux)

lemma hashes_of_high_byte:
  "elf_hash [CHR 0xFF] = 0xfffff0f \<and> spec_sysv_hash [CHR 0xFF] = 0xff"
  by (simp add: elf_hash_def elf_hash_step_def spec_sysv_hash_def spec_sysv_hash_step_def Let_def)

lemma init_threeBucket: "init (io threeBucketObject) = Inr threeBucketObject"
  by (simp add: threeBucketObject_def bucketObject_def init_def bucketReader_def dynHeader_def imageReader_def
      plainHeader_def lift_read_def SHN_UNDEF_def at_index_def readHeaders_numeral
      nullSection_def shstrtabSection_def textSection_def dynsymSection_def dynstrSection_def
      hashSection_def SHT_HASH_def SHT_NULL_def getDebug_def ElfSymHash_new_def getLink_def
      sizeof_Word_def threeBucketWords_def bucketHash_def)

lemma init_sevenBucket: "init (io sevenBucketObject) = Inr sevenBucketObject"
  by (simp add: sevenBucketObject_def bucketObject_def init_def bucketReader_def dynHeader_def imageReader_def
      plainHeader_def lift_read_def SHN_UNDEF_def at_index_def readHeaders_numeral
      nullSection_def shstrtabSection_def textSection_def dynsymSection_def dynstrSection_def
      hashSection_def SHT_HASH_def SHT_NULL_def getDebug_def ElfSymHash_new_def getLink_def
      sizeof_Word_def sevenBucketWords_def bucketHash_def)

text \<open>
  On a table that a linker filled by the hash of the ABI, the name with the byte 0xff
  lies on the chain of bucket 3, but \<open>findSymbol\<close> probes bucket 6, finds it empty
  and fails, while the linear scan finds the entry.
\<close>

lemma high_byte_name_missed:
  "init (io sevenBucketObject) = Inr sevenBucketObject \<and>
   hash sevenBucketObject = Some (bucketHash 48 sevenBucketWords) \<and>
   buckets_at (bucketHash 48 sevenBucketWords)
     (spec_sysv_hash [CHR 0xFF] mod nbucket (bucketHash 48 sevenBucketWords)) = Inr 1 \<and>
   findSymbol (io sevenBucketObject) (bucketHash 48 sevenBucketWords) nullSym [CHR 0xFF] =
     Some (Inr (False, nullSym, [CHR 0xFF])) \<and>
   linearSymSearch (getSection sevenBucketObject ''.dynsym'' SHT_DYNSYM) [CHR 0xFF] nullSym =
     Inr (True, fOld)"
proof -
  let ?h = "bucketHash 48 sevenBucketWords"
  have nb: "nbucket ?h = 7" by (simp add: bucketHash_def sevenBucketWords_def)
  have a: "buckets_at ?h (spec_sysv_hash [CHR 0xFF] mod nbucket ?h) = Inr 1"
    by (simp add: hashes_of_high_byte nb buckets_at_def at_index_def bucketHash_def sevenBucketWords_def)
  have b: "findSymbol (io sevenBucketObject) ?h nullSym [CHR 0xFF] = Some (Inr (False, nullSym, [CHR 0xFF]))"
    by (simp add: findSymbol_def hashes_of_high_byte nb buckets_at_def at_index_def bucketHash_def
        sevenBucketWords_def chainLoop.simps STN_UNDEF_def)
  have c: "linearSymSearch (getSection sevenBucketObject ''.dynsym'' SHT_DYNSYM) [CHR 0xFF] nullSym = Inr (True, fOld)"
    by (simp add: linearSymSearch_def sevenBucketObject_def bucketObject_def getDebug_def SHT_DYNSYM_def
        SHT_NULL_def dynsymSection_def dynstrSection_def SymbolSection_def getLink_def at_index_def
        sizeof_Sym_def upt_rec deref_def bucketReader_def imageReader_def lift_read_def nullSym_def
        fOld_def)
  have hs: "hash sevenBucketObject = Some ?h"
    by (simp add: sevenBucketObject_def bucketObject_def)
  from a b c hs init_sevenBucket show ?thesis by simp
qed

text \<open>
  C3, amended. Let the hash table have at least one bucket and belong to the scanned
  symbol table, all of whose entries can be read. For a name whose bytes are all below
  0x80 and that exactly one entry carries, at an index \<open>t\<close> other than
  \<open>STN_UNDEF\<close> that lies on the chain of the bucket that the classic SysV hash of
  the name selects, the hashed lookup ends, both lookups succeed, and both return the
  entry at \<open>t\<close>.
\<close>

theorem hash_and_linear_agree:
  assumes "SymbolSection obj dyn = Inr (offs, stroff)"
    and "syms h = dyn" and "strings h = stroff" and "nbucket h \<noteq> 0"
    and "t \<noteq> STN_UNDEF" and "unat t < length offs"
    and "deref (io obj) (offs ! unat t) stroff = Inr (s, nm)"
    and "\<forall>j < length offs. j \<noteq> unat t \<longrightarrow>
           (\<exists>c cn. deref (io obj) (offs ! j) stroff = Inr (c, cn) \<and> cn \<noteq> nm)"
    and "buckets_at h (spec_sysv_hash nm mod nbucket h) = Inr b"
    and "chain_reaches h (length offs) fuel b t"
    and "\<forall>c \<in> set nm. (of_char c :: nat) < 128"
  shows "findSymbol (io obj) h sym0 nm = Some (Inr (True, s, nm)) \<and>
         linearSymSearch (obj, Some dyn) nm sym0 = Inr (True, s)"
proof -
  have hash_eq: "elf_hash nm = spec_sysv_hash nm"
    using assms(11) by (rule elf_hash_seven_bit)
  have offs: "offs ! j = sh_offset dyn + of_nat (j * sizeof_Sym)" if "j < length offs" for j
    using assms(1) that by (auto simp: SymbolSection_def split: sum.splits)
  have d: "deref (io obj) (sh_offset (syms h) + of_nat (unat t * sizeof_Sym)) (strings h) = Inr (s, nm)"
    using assms(7) offs [OF assms(6)] assms(2,3) by simp
  have others: "\<forall>j < length offs. j \<noteq> unat t \<longrightarrow>
           (\<exists>c cn. deref (io obj) (sh_offset (syms h) + of_nat (j * sizeof_Sym)) (strings h) = Inr (c, cn) \<and> cn \<noteq> nm)"
  proof (intro allI impI)
    fix j assume j: "j < length offs" "j \<noteq> unat t"
    with assms(8) have "\<exists>c cn. deref (io obj) (offs ! j) stroff = Inr (c, cn) \<and> cn \<noteq> nm" by blast
    then show "\<exists>c cn. deref (io obj) (sh_offset (syms h) + of_nat (j * sizeof_Sym)) (strings h) = Inr (c, cn) \<and> cn \<noteq> nm"
      using offs [OF j(1)] assms(2,3) by simp
  qed
  have "chainLoop (io obj) h nm b = Some (Inr (Some (s, nm)))"
    using assms(10,5) d others by (rule chainLoop_reaches)
  then have hashed: "findSymbol (io obj) h sym0 nm = Some (Inr (True, s, nm))"
    using assms(4,9) by (simp add: findSymbol_def hash_eq)
  have before: "\<forall>j < unat t. \<exists>c cn. deref (io obj) (offs ! j) stroff = Inr (c, cn) \<and> cn \<noteq> nm"
    using assms(6,8) by auto
  have "linearLoop (io obj) stroff nm offs sym0 = Inr (True, s)"
    using assms(6,7) before by (rule linearLoop_first)
  then have "linearSymSearch (obj, Some dyn) nm sym0 = Inr (True, s)"
    using assms(1) by (simp add: linearSymSearch_def)
  with hashed show ?thesis by simp
qed

theorem hash_and_linear_agree_witness:
  "init (io threeBucketObject) = Inr threeBucketObject \<and>
   hash threeBucketObject = Some (bucketHash 32 threeBucketWords) \<and>
   spec_sysv_hash ''g'' mod nbucket (bucketHash 32 threeBucketWords) = 1 \<and>
   findSymbol (io threeBucketObject) (bucketHash 32 threeBucketWords) nullSym ''g'' =
     Some (Inr (True, gSym, ''g'')) \<and>
   linearSymSearch (getSection threeBucketObject ''.dynsym'' SHT_DYNSYM) ''g'' nullSym = Inr (True, gSym)"
proof -
  let ?h = "bucketHash 32 threeBucketWords"
  have sec: "getSection threeBucketObject ''.dynsym'' SHT_DYNSYM = (threeBucketObject, Some dynsymSection)"
    by (simp add: threeBucketObject_def bucketObject_def getDebug_def SHT_DYNSYM_def dynsymSection_def)
  have h1: "SymbolSection threeBucketObject dynsymSection = Inr ([0x400, 0x418, 0x430], 0x500)"
    by (simp add: SymbolSection_def getLink_def at_index_def threeBucketObject_def bucketObject_def
        dynsymSection_def dynstrSection_def sizeof_Sym_def upt_rec)
  have h2: "syms ?h = dynsymSection" by (simp add: bucketHash_def)
  have h3: "strings ?h = 0x500" by (simp add: bucketHash_def)
  have nb: "nbucket ?h = 3" by (simp add: bucketHash_def threeBucketWords_def)
  have h4: "nbucket ?h \<noteq> 0" by (simp add: nb)
  have h5: "(2 :: Elf_Word) \<noteq> STN_UNDEF" by (simp add: STN_UNDEF_def)
  have h6: "unat (2 :: Elf_Word) < length [0x400, 0x418, 0x430 :: Elf_Off]" by simp
  have rd: "readSym (io threeBucketObject) = map_of [(0x400, nullSym), (0x418, fOld), (0x430, gSym)]"
    "readString (io threeBucketObject) 0x500 = Some []"
    "readString (io threeBucketObject) 0x501 = Some ''f''"
    "readString (io threeBucketObject) 0x503 = Some ''g''"
    by (simp_all add: threeBucketObject_def bucketObject_def bucketReader_def imageReader_def)
  have h7: "deref (io threeBucketObject) ([0x400, 0x418, 0x430] ! unat (2 :: Elf_Word)) 0x500 = Inr (gSym, ''g'')"
    by (simp add: deref_def rd lift_read_def gSym_def)
  have e0: "deref (io threeBucketObject) 0x400 0x500 = Inr (nullSym, [])"
    by (simp add: deref_def rd lift_read_def nullSym_def)
  have e1: "deref (io threeBucketObject) 0x418 0x500 = Inr (fOld, ''f'')"
    by (simp add: deref_def rd lift_read_def fOld_def)
  have h8: "\<forall>j < length [0x400, 0x418, 0x430 :: Elf_Off]. j \<noteq> unat (2 :: Elf_Word) \<longrightarrow>
           (\<exists>c cn. deref (io threeBucketObject) ([0x400, 0x418, 0x430] ! j) 0x500 = Inr (c, cn) \<and> cn \<noteq> ''g'')"
    using e0 e1 by (auto simp: less_Suc_eq)
  have sh: "spec_sysv_hash ''g'' = 0x67"
    by (simp add: spec_sysv_hash_def spec_sysv_hash_step_def Let_def)
  have bk: "spec_sysv_hash ''g'' mod nbucket ?h = 1" by (simp add: sh nb)
  have h9: "buckets_at ?h (spec_sysv_hash ''g'' mod nbucket ?h) = Inr 2"
    unfolding bk by (simp add: buckets_at_def at_index_def bucketHash_def threeBucketWords_def)
  have h10: "chain_reaches ?h (length [0x400, 0x418, 0x430 :: Elf_Off]) 0 2 2"
    by simp
  have h11: "\<forall>c \<in> set ''g''. (of_char c :: nat) < 128" by simp
  have hs: "hash threeBucketObject = Some ?h"
    by (simp add: threeBucketObject_def bucketObject_def)
  from hash_and_linear_agree [OF h1 h2 h3 h4 h5 h6 h7 h8 h9 h10 h11, of nullSym] init_threeBucket hs bk
  show ?thesis unfolding sec by simp
qed

section \<open>Properties of the program\<close>

text \<open>Inside the option loop only \<^verbatim>\<open>-h\<close> returns, with 0; after it only the last
  statement returns, with 0.\<close>

lemma getoptLoop_returns_zero: "getoptLoop env opts cfg = Inr (Inl rc) \<Longrightarrow> rc = 0"
proof (induction opts arbitrary: cfg)
  case Nil
  then show ?case by simp
next
  case (Cons o1 opts)
  obtain c optarg where o1: "o1 = (c, optarg)" by (cases o1) auto
  from Cons.prems show ?case
    unfolding o1 by (auto split: if_splits dest: Cons.IH)
qed

lemma mainExcept_returns_zero:
  assumes "mainExcept env opts args = Some (Inr (rc, out))"
  shows "rc = 0"
proof (cases "getoptLoop env opts initialConfig")
  case (Inl e)
  with assms show ?thesis by (simp add: mainExcept_def)
next
  case (Inr r)
  show ?thesis
  proof (cases r)
    case (Inl rc')
    with Inr assms have "rc = rc'" by (simp add: mainExcept_def)
    moreover from Inr Inl have "rc' = 0" by (auto dest: getoptLoop_returns_zero)
    ultimately show ?thesis by simp
  next
    case cfg: (Inr cfg)
    with Inr assms show ?thesis
      by (auto simp: mainExcept_def Let_def split: sum.splits option.splits prod.splits)
  qed
qed

text \<open>
  C9, amended. \<^verbatim>\<open>main\<close> returns 0 when \<^verbatim>\<open>mainExcept\<close> returns, and \<open>-1\<close>
  when an exception leaves it, as a failure to open or parse the executable or the
  core does; no run returns 1 or 2.
\<close>

theorem main_exit_codes:
  "(\<forall>rc. main env opts args = Some (Inr rc) \<longrightarrow> rc = 0 \<or> rc = - 1) \<and>
   (\<forall>ex. mainExcept env opts args = Some (Inl ex) \<and> is_exception ex \<longrightarrow>
         main env opts args = Some (Inr (- 1))) \<and>
   (\<forall>r. mainExcept env opts args = Some (Inr r) \<longrightarrow> main env opts args = Some (Inr 0))"
proof (intro conjI allI impI)
  fix rc assume "main env opts args = Some (Inr rc)"
  then show "rc = 0 \<or> rc = - 1"
    by (auto simp: main_def split: option.splits sum.splits prod.splits if_splits
        dest: mainExcept_returns_zero)
next
  fix ex assume "mainExcept env opts args = Some (Inl ex) \<and> is_exception ex"
  then show "main env opts args = Some (Inr (- 1))" by (simp add: main_def)
next
  fix r assume r: "mainExcept env opts args = Some (Inr r)"
  obtain rc out where "r = (rc, out)" by (cases r) auto
  with r mainExcept_returns_zero [of env opts args rc out]
  show "main env opts args = Some (Inr 0)" by (simp add: main_def)
qed

text \<open>
  C9, as the claim states it, fails for a core file whose header cannot be read: the
  exception reaches \<^verbatim>\<open>main\<close>, which returns \<open>-1\<close>, not 1.
\<close>

theorem parse_failure_exits_minus_one:
  "ElfObject_open (bareEnv [''core'' \<mapsto> truncatedReader]) ''core'' = Inl ReadError \<and>
   main (bareEnv [''core'' \<mapsto> truncatedReader]) [] [''core''] = Some (Inr (- 1)) \<and>
   (- 1 :: int) \<noteq> 1"
  by (simp add: main_def mainExcept_def openTargets_def ElfObject_open_def bareEnv_def
      truncatedReader_def init_def lift_read_def initialConfig_def)

text \<open>
  Errors of usage have no exit code of their own: an option that \<^verbatim>\<open>getopt\<close> does
  not know is passed over, \<^verbatim>\<open>-e\<close> without \<^verbatim>\<open>-f\<close> before it aborts, and a run
  without a core argument calls \<^verbatim>\<open>load\<close> on a null pointer.
\<close>

lemma usage_errors_without_exit_code:
  "getoptLoop env ((CHR ''?'', optarg) # rest) cfg = getoptLoop env rest cfg"
  "main env [(CHR ''e'', optarg)] args = Some (Inl Aborted)"
  "main env [] [] = Some (Inl NullDeref)"
  by (simp_all add: main_def mainExcept_def openTargets_def initialConfig_def)

theorem main_exit_codes_witness:
  "main (bareEnv Map.empty) [] [''prog'', ''core''] = Some (Inr (- 1)) \<and>
   main (bareEnv [''core'' \<mapsto> plainReader]) [(CHR ''v'', [])] [''core''] = Some (Inr 0)"
proof -
  have a: "mainExcept (bareEnv Map.empty) [] [''prog'', ''core''] = Some (Inl ReadError) \<and>
           is_exception ReadError"
    by (simp add: mainExcept_def openTargets_def ElfObject_open_def bareEnv_def initialConfig_def)
  have i: "init plainReader = Inr plainObject"
    by (simp add: init_def plainObject_def plainReader_def imageReader_def plainHeader_def
      lift_read_def SHN_UNDEF_def)
  have b: "mainExcept (bareEnv [''core'' \<mapsto> plainReader]) [(CHR ''v'', [])] [''core''] = Some (Inr (0, []))"
    by (simp add: mainExcept_def openTargets_def ElfObject_open_def bareEnv_def initialConfig_def i
        getSegments_def plainObject_def)
  from main_exit_codes [of "bareEnv Map.empty" "[]" "[''prog'', ''core'']"] a
  have "main (bareEnv Map.empty) [] [''prog'', ''core''] = Some (Inr (- 1))" by blast
  moreover from main_exit_codes [of "bareEnv [''core'' \<mapsto> plainReader]" "[(CHR ''v'', [])]" "[''core'']"] b
  have "main (bareEnv [''core'' \<mapsto> plainReader]) [(CHR ''v'', [])] [''core''] = Some (Inr 0)" by blast
  ultimately show ?thesis by simp
qed

end
